theory Spec2Isabelle
  imports Main "HOL-Library.AList" "HOL-Library.Sublist" "HOL-Library.Monad_Syntax"
begin

section \<open>Data model (session-manager.ts)\<close>

text \<open>
  \<^verbatim>\<open>Message { role: 'user' | 'assistant'; content: string; timestamp: number }\<close> and
  \<^verbatim>\<open>Session { userId; messages; createdAt; lastActivityAt }\<close>.
  Timestamps are the integers that \<^verbatim>\<open>Date.now()\<close> returns (milliseconds).
\<close>

datatype role = User | Assistant

record message =
  role :: role
  content :: string
  timestamp :: int

record session =
  userId :: string
  messages :: "message list"
  createdAt :: int
  lastActivityAt :: int

text \<open>
  A rejected promise or a thrown exception carries a JavaScript \<^verbatim>\<open>Error\<close>: its
  \<^verbatim>\<open>message\<close>, and the \<^verbatim>\<open>stdout\<close> property that only \<^verbatim>\<open>execCommand\<close> attaches
  (\<open>None\<close> is \<^verbatim>\<open>undefined\<close>).
\<close>

datatype js_error = Error (err_message: string) (err_stdout: "string option")

section \<open>The runtime: clock and session directory\<close>

text \<open>
  Everything the two classes reach outside themselves. The session directory is a flat
  list of (file name, text) entries in the order \<^verbatim>\<open>readdir\<close> lists them. Each call
  into \<^verbatim>\<open>fs/promises\<close> consumes one answer of \<open>io_fault\<close>: \<open>Some msg\<close> makes that call
  reject with message \<open>msg\<close> (directory missing, disk full, permission denied),
  \<open>None\<close> lets it proceed. Each \<^verbatim>\<open>Date.now()\<close> consumes one reading of \<open>clock\<close>.
  A rejected write leaves the entries as they were.
\<close>

record world =
  files :: "(string \<times> string) list"
  io_fault :: "nat \<Rightarrow> string option"
  io_calls :: nat
  clock :: "nat \<Rightarrow> int"
  clock_reads :: nat

definition Date_now :: "world \<Rightarrow> int \<times> world" where
  "Date_now w = (clock w (clock_reads w), w\<lparr>clock_reads := Suc (clock_reads w)\<rparr>)"

definition fs_call :: "world \<Rightarrow> string option \<times> world" where
  "fs_call w = (io_fault w (io_calls w), w\<lparr>io_calls := Suc (io_calls w)\<rparr>)"

definition fs_writeFile :: "string \<Rightarrow> string \<Rightarrow> world \<Rightarrow> (js_error + unit) \<times> world" where
  "fs_writeFile name data w =
     (case fs_call w of
        (Some msg, w') \<Rightarrow> (Inl (Error msg None), w')
      | (None, w') \<Rightarrow> (Inr (), w'\<lparr>files := AList.update name data (files w')\<rparr>))"

definition fs_unlink :: "string \<Rightarrow> world \<Rightarrow> (js_error + unit) \<times> world" where
  "fs_unlink name w =
     (case fs_call w of
        (Some msg, w') \<Rightarrow> (Inl (Error msg None), w')
      | (None, w') \<Rightarrow>
          (case map_of (files w') name of
             None \<Rightarrow> (Inl (Error ''ENOENT: no such file or directory'' None), w')
           | Some _ \<Rightarrow> (Inr (), w'\<lparr>files := AList.delete name (files w')\<rparr>)))"

definition fs_readdir :: "world \<Rightarrow> (js_error + string list) \<times> world" where
  "fs_readdir w =
     (case fs_call w of
        (Some msg, w') \<Rightarrow> (Inl (Error msg None), w')
      | (None, w') \<Rightarrow> (Inr (map fst (files w')), w'))"

definition fs_readFile :: "string \<Rightarrow> world \<Rightarrow> (js_error + string) \<times> world" where
  "fs_readFile name w =
     (case fs_call w of
        (Some msg, w') \<Rightarrow> (Inl (Error msg None), w')
      | (None, w') \<Rightarrow>
          (case map_of (files w') name of
             None \<Rightarrow> (Inl (Error ''ENOENT: no such file or directory'' None), w')
           | Some data \<Rightarrow> (Inr data, w')))"

section \<open>JavaScript library functions\<close>

text \<open>
  \<^verbatim>\<open>Array.prototype.slice(start)\<close> on an integer \<open>start\<close>: a negative start counts
  from the end and is clamped at 0, a positive one is clamped at the length. Note
  that \<^verbatim>\<open>slice(-0)\<close> is \<^verbatim>\<open>slice(0)\<close>, the whole array.
\<close>

definition js_slice :: "int \<Rightarrow> 'a list \<Rightarrow> 'a list" where
  "js_slice start xs =
     (let len = int (length xs);
          k = (if start < 0 then max (len + start) 0 else min start len)
      in drop (nat k) xs)"

text \<open>\<^verbatim>\<open>Array.prototype.join(sep)\<close> on strings.\<close>

fun js_join :: "string \<Rightarrow> string list \<Rightarrow> string" where
  "js_join sep [] = []"
| "js_join sep [x] = x"
| "js_join sep (x # y # ys) = x @ sep @ js_join sep (y # ys)"

text \<open>\<^verbatim>\<open>String.prototype.endsWith\<close>.\<close>

definition endsWith :: "string \<Rightarrow> string \<Rightarrow> bool" where
  "endsWith s suf = (length suf \<le> length s \<and> drop (length s - length suf) s = suf)"

text \<open>Decimal rendering of numbers in template strings and in JSON.\<close>

definition digit_char :: "nat \<Rightarrow> char" where
  "digit_char d = char_of (48 + d)"

function show_nat :: "nat \<Rightarrow> string" where
  "show_nat n = (if n < 10 then [digit_char n] else show_nat (n div 10) @ [digit_char (n mod 10)])"
  by pat_completeness auto
termination
  by (relation "measure id") auto

declare show_nat.simps [simp del]

definition show_int :: "int \<Rightarrow> string" where
  "show_int i = (if i < 0 then CHR ''-'' # show_nat (nat (- i)) else show_nat (nat i))"

abbreviation newline :: char where "newline \<equiv> CHR 0x0A"
abbreviation dquote :: char where "dquote \<equiv> CHR 0x22"
abbreviation backslash :: char where "backslash \<equiv> CHR 0x5C"


text \<open>
  The text \<^verbatim>\<open>JSON.stringify(session, null, 2)\<close> writes for a session object built by
  this program (properties in creation order, two spaces per level): strings quoted
  with the JSON escapes, numbers in decimal, an empty array as \<^verbatim>\<open>[]\<close>.
\<close>

definition hex_digit :: "nat \<Rightarrow> char" where
  "hex_digit d = (if d < 10 then char_of (48 + d) else char_of (87 + d))"

definition json_escape_char :: "char \<Rightarrow> string" where
  "json_escape_char c =
     (if c = dquote then [backslash, dquote]
      else if c = backslash then [backslash, backslash]
      else if c = CHR 0x08 then [backslash, CHR ''b'']
      else if c = CHR 0x0C then [backslash, CHR ''f'']
      else if c = CHR 0x0A then [backslash, CHR ''n'']
      else if c = CHR 0x0D then [backslash, CHR ''r'']
      else if c = CHR 0x09 then [backslash, CHR ''t'']
      else if (of_char c :: nat) < 32
        then backslash # ''u00'' @ [hex_digit (of_char c div 16), hex_digit (of_char c mod 16)]
      else [c])"

definition json_quote :: "string \<Rightarrow> string" where
  "json_quote s = dquote # concat (map json_escape_char s) @ [dquote]"

definition json_key :: "nat \<Rightarrow> string \<Rightarrow> string" where
  "json_key ind k = replicate ind CHR '' '' @ json_quote k @ '': ''"

definition role_name :: "role \<Rightarrow> string" where
  "role_name r = (case r of User \<Rightarrow> ''user'' | Assistant \<Rightarrow> ''assistant'')"

definition json_message :: "message \<Rightarrow> string" where
  "json_message m =
     ''{'' @ [newline]
     @ json_key 6 ''role'' @ json_quote (role_name (role m)) @ '','' @ [newline]
     @ json_key 6 ''content'' @ json_quote (content m) @ '','' @ [newline]
     @ json_key 6 ''timestamp'' @ show_int (timestamp m) @ [newline]
     @ replicate 4 CHR '' '' @ ''}''"

definition json_messages :: "message list \<Rightarrow> string" where
  "json_messages ms =
     (if ms = [] then ''[]''
      else ''['' @ [newline]
           @ js_join ('','' @ [newline]) (map (\<lambda>m. replicate 4 CHR '' '' @ json_message m) ms)
           @ [newline] @ replicate 2 CHR '' '' @ '']'')"

definition JSON_stringify :: "session \<Rightarrow> string" where
  "JSON_stringify s =
     ''{'' @ [newline]
     @ json_key 2 ''userId'' @ json_quote (userId s) @ '','' @ [newline]
     @ json_key 2 ''messages'' @ json_messages (messages s) @ '','' @ [newline]
     @ json_key 2 ''createdAt'' @ show_int (createdAt s) @ '','' @ [newline]
     @ json_key 2 ''lastActivityAt'' @ show_int (lastActivityAt s) @ [newline]
     @ ''}''"

section \<open>SessionManager (session-manager.ts)\<close>

text \<open>
  \<open>sessions\<close> is the \<^verbatim>\<open>Map<string, Session>\<close> in insertion order: \<^verbatim>\<open>set\<close> replaces in
  place or appends (\<open>AList.update\<close>), \<^verbatim>\<open>delete\<close> removes (\<open>AList.delete\<close>). The session
  objects are shared by reference, so a mutation of a session is an update of its
  entry. An operation returns its result (\<open>Inl\<close> for a rejected promise) together with
  the manager and the runtime as the call leaves them: a rejection does not undo what
  was done before it. Console output is not modelled.
\<close>

record manager =
  sessions :: "(string \<times> session) list"
  maxMessagesPerSession :: int

text \<open>\<^verbatim>\<open>new SessionManager(sessionDir, maxMessagesPerSession = 50)\<close>.\<close>

definition new_SessionManager :: "int option \<Rightarrow> manager" where
  "new_SessionManager maxMessages =
     \<lparr>sessions = [], maxMessagesPerSession = (case maxMessages of None \<Rightarrow> 50 | Some n \<Rightarrow> n)\<rparr>"

text \<open>
  \<^verbatim>\<open>path.join(this.sessionDir, `${userId}.json`)\<close>, as a name in the session directory.
  The user ids are the chat ids the bot passes (\<^verbatim>\<open>msg.from?.id.toString() || 'unknown'\<close>);
  they hold no path separator, so every session file lies in that directory.
\<close>

definition sessionFile :: "string \<Rightarrow> string" where
  "sessionFile uid = uid @ ''.json''"

definition saveSession :: "string \<Rightarrow> manager \<Rightarrow> world \<Rightarrow> (js_error + unit) \<times> world" where
  "saveSession uid m w =
     (case map_of (sessions m) uid of
        None \<Rightarrow> (Inr (), w)
      | Some s \<Rightarrow> fs_writeFile (sessionFile uid) (JSON_stringify s) w)"

definition getSession ::
  "string \<Rightarrow> manager \<Rightarrow> world \<Rightarrow> (js_error + session) \<times> manager \<times> world" where
  "getSession uid m w =
     (case map_of (sessions m) uid of
        Some s \<Rightarrow> (Inr s, m, w)
      | None \<Rightarrow>
          (let (t1, w1) = Date_now w;
               (t2, w2) = Date_now w1;
               s = \<lparr>userId = uid, messages = [], createdAt = t1, lastActivityAt = t2\<rparr>;
               m' = m\<lparr>sessions := AList.update uid s (sessions m)\<rparr>
           in case saveSession uid m' w2 of
                (Inl e, w3) \<Rightarrow> (Inl e, m', w3)
              | (Inr _, w3) \<Rightarrow> (Inr s, m', w3)))"

definition addMessage ::
  "string \<Rightarrow> role \<Rightarrow> string \<Rightarrow> manager \<Rightarrow> world \<Rightarrow> (js_error + unit) \<times> manager \<times> world" where
  "addMessage uid r c m w =
     (case getSession uid m w of
        (Inl e, m1, w1) \<Rightarrow> (Inl e, m1, w1)
      | (Inr s, m1, w1) \<Rightarrow>
          (let (t, w2) = Date_now w1;
               pushed = messages s @ [\<lparr>role = r, content = c, timestamp = t\<rparr>];
               kept = (if int (length pushed) > maxMessagesPerSession m1
                       then js_slice (- maxMessagesPerSession m1) pushed else pushed);
               (t', w3) = Date_now w2;
               s' = s\<lparr>messages := kept, lastActivityAt := t'\<rparr>;
               m2 = m1\<lparr>sessions := AList.update uid s' (sessions m1)\<rparr>
           in case saveSession uid m2 w3 of
                (Inl e, w4) \<Rightarrow> (Inl e, m2, w4)
              | (Inr _, w4) \<Rightarrow> (Inr (), m2, w4)))"

text \<open>
  \<^verbatim>\<open>getHistory(userId, lastN?)\<close>: \<open>None\<close> is the omitted argument; \<^verbatim>\<open>if (lastN)\<close> is
  false for \<^verbatim>\<open>undefined\<close> and for 0.
\<close>

definition getHistory ::
  "string \<Rightarrow> int option \<Rightarrow> manager \<Rightarrow> world \<Rightarrow> (js_error + message list) \<times> manager \<times> world" where
  "getHistory uid lastN m w =
     (case getSession uid m w of
        (Inl e, m1, w1) \<Rightarrow> (Inl e, m1, w1)
      | (Inr s, m1, w1) \<Rightarrow>
          (case lastN of
             Some n \<Rightarrow> if n \<noteq> 0 then (Inr (js_slice (- n) (messages s)), m1, w1)
                       else (Inr (messages s), m1, w1)
           | None \<Rightarrow> (Inr (messages s), m1, w1)))"

definition clearSession ::
  "string \<Rightarrow> manager \<Rightarrow> world \<Rightarrow> (js_error + unit) \<times> manager \<times> world" where
  "clearSession uid m w =
     (let m' = m\<lparr>sessions := AList.delete uid (sessions m)\<rparr>
      in case fs_unlink (sessionFile uid) w of
           (Inl e, w') \<Rightarrow> (Inr (), m', w')
         | (Inr _, w') \<Rightarrow> (Inr (), m', w'))"

definition render_message :: "message \<Rightarrow> string" where
  "render_message msg = (if role msg = User then ''User'' else ''Assistant'') @ '': '' @ content msg"

definition getConversationContext ::
  "string \<Rightarrow> int option \<Rightarrow> manager \<Rightarrow> world \<Rightarrow> (js_error + string) \<times> manager \<times> world" where
  "getConversationContext uid lastN m w =
     (case getHistory uid (Some (case lastN of None \<Rightarrow> 10 | Some n \<Rightarrow> n)) m w of
        (Inl e, m1, w1) \<Rightarrow> (Inl e, m1, w1)
      | (Inr history, m1, w1) \<Rightarrow>
          if length history = 0 then (Inr [], m1, w1)
          else (Inr (''Previous conversation:'' @ [newline]
                     @ js_join [newline, newline] (map render_message history)
                     @ [newline, newline] @ ''Current query:''), m1, w1))"

text \<open>
  \<^verbatim>\<open>loadSessions\<close>: one \<^verbatim>\<open>try\<close> around the whole loop. \<open>parse\<close> is \<^verbatim>\<open>JSON.parse\<close> followed by
  the read of \<^verbatim>\<open>session.userId\<close>: \<open>None\<close> when that throws, otherwise the session
  object the text denotes.
\<close>

fun load_loop ::
  "(string \<Rightarrow> session option) \<Rightarrow> string list \<Rightarrow> manager \<Rightarrow> world
     \<Rightarrow> (js_error + unit) \<times> manager \<times> world" where
  "load_loop parse [] m w = (Inr (), m, w)"
| "load_loop parse (file # rest) m w =
     (if \<not> endsWith file ''.json'' then load_loop parse rest m w
      else case fs_readFile file w of
             (Inl e, w') \<Rightarrow> (Inl e, m, w')
           | (Inr data, w') \<Rightarrow>
               (case parse data of
                  None \<Rightarrow> (Inl (Error ''SyntaxError'' None), m, w')
                | Some s \<Rightarrow>
                    load_loop parse rest (m\<lparr>sessions := AList.update (userId s) s (sessions m)\<rparr>) w'))"

definition loadSessions ::
  "(string \<Rightarrow> session option) \<Rightarrow> manager \<Rightarrow> world \<Rightarrow> (js_error + unit) \<times> manager \<times> world" where
  "loadSessions parse m w =
     (case fs_readdir w of
        (Inl e, w') \<Rightarrow> (Inr (), m, w')
      | (Inr names, w') \<Rightarrow>
          (case load_loop parse names m w' of
             (Inl e, m', w'') \<Rightarrow> (Inr (), m', w'')
           | (Inr _, m', w'') \<Rightarrow> (Inr (), m', w'')))"

text \<open>\<^verbatim>\<open>initialize\<close>: \<^verbatim>\<open>fs.mkdir(sessionDir, {recursive: true})\<close>, then \<^verbatim>\<open>loadSessions\<close>.\<close>

definition initialize ::
  "(string \<Rightarrow> session option) \<Rightarrow> manager \<Rightarrow> world \<Rightarrow> (js_error + unit) \<times> manager \<times> world" where
  "initialize parse m w =
     (case fs_call w of
        (Some msg, w') \<Rightarrow> (Inl (Error msg None), m, w')
      | (None, w') \<Rightarrow> loadSessions parse m w')"

text \<open>\<^verbatim>\<open>getStats\<close>; the size of the map is the length of the list, its keys being distinct.\<close>

record stats =
  totalSessions :: nat
  totalMessages :: nat

definition getStats :: "manager \<Rightarrow> stats" where
  "getStats m =
     \<lparr>totalSessions = length (sessions m),
      totalMessages = sum_list (map (\<lambda>(k, s). length (messages s)) (sessions m))\<rparr>"

section \<open>Process invoker and ClaudeExecutor (claude-executor.ts)\<close>

text \<open>
  What \<^verbatim>\<open>execCommand\<close> observes of the child process, by the event that settles its
  promise first: an \<^verbatim>\<open>error\<close> event (the spawn failed), the \<^verbatim>\<open>close\<close> event with the exit
  code (\<open>None\<close> is \<^verbatim>\<open>null\<close>, death by signal) and the collected output, or the timer
  with the output collected until then.
\<close>

datatype proc_outcome =
    SpawnError string
  | Closed "int option" string string
  | TimedOut string string

definition show_code :: "int option \<Rightarrow> string" where
  "show_code code = (case code of None \<Rightarrow> ''null'' | Some i \<Rightarrow> show_int i)"

definition execCommand ::
  "(string \<Rightarrow> proc_outcome) \<Rightarrow> string \<Rightarrow> nat \<Rightarrow> js_error + (string \<times> string)" where
  "execCommand run command timeout =
     (case run command of
        SpawnError msg \<Rightarrow> Inl (Error msg None)
      | TimedOut out err \<Rightarrow>
          Inl (Error (''Command timed out after '' @ show_nat timeout @ ''ms'') None)
      | Closed code out err \<Rightarrow>
          if code = Some 0 \<or> out \<noteq> [] \<or> err \<noteq> [] then Inr (out, err)
          else Inl (Error (''Command failed with exit code '' @ show_code code) (Some out)))"

text \<open>\<^verbatim>\<open>String.prototype.trim\<close> and \<^verbatim>\<open>replace(/c/g, rep)\<close> on code units below 256.\<close>

definition is_js_space :: "char \<Rightarrow> bool" where
  "is_js_space c =
     (c = CHR 0x09 \<or> c = CHR 0x0A \<or> c = CHR 0x0B \<or> c = CHR 0x0C \<or> c = CHR 0x0D
      \<or> c = CHR 0x20 \<or> c = CHR 0xA0)"

definition js_trim :: "string \<Rightarrow> string" where
  "js_trim s = rev (dropWhile is_js_space (rev (dropWhile is_js_space s)))"

definition replace_char :: "char \<Rightarrow> string \<Rightarrow> string \<Rightarrow> string" where
  "replace_char c rep s = concat (map (\<lambda>x. if x = c then rep else [x]) s)"

definition escapeQuery :: "string \<Rightarrow> string" where
  "escapeQuery query =
     replace_char CHR ''$'' [backslash, CHR ''$'']
       (replace_char CHR 0x60 [backslash, CHR 0x60]
         (replace_char dquote [backslash, dquote] query))"

record response =
  success :: bool
  "output" :: string
  error :: "string option"

record executor =
  userSessionIds :: "(string \<times> string) list"

definition resume_command :: "string \<Rightarrow> string \<Rightarrow> string" where
  "resume_command sid query =
     ''claude --resume '' @ [dquote] @ sid @ [dquote] @ '' -p '' @ [dquote] @ escapeQuery query @ [dquote]"

definition create_command :: "string \<Rightarrow> string \<Rightarrow> string" where
  "create_command sid query =
     ''claude --session-id '' @ [dquote] @ sid @ [dquote] @ '' -p '' @ [dquote] @ escapeQuery query @ [dquote]"

text \<open>The two \<^verbatim>\<open>return\<close> statements of \<^verbatim>\<open>executeQuery\<close>.\<close>

definition succeeded :: "string \<Rightarrow> string \<Rightarrow> response" where
  "succeeded out err =
     \<lparr>success = True,
      output = (if out \<noteq> [] then out else if err \<noteq> [] then err
                else ''Command executed successfully (no output)''),
      error = None\<rparr>"

definition failed :: "js_error \<Rightarrow> response" where
  "failed e =
     \<lparr>success = False,
      output = (case err_stdout e of None \<Rightarrow> [] | Some out \<Rightarrow> out),
      error = Some (if err_message e \<noteq> [] then err_message e else ''Unknown error occurred'')\<rparr>"

text \<open>
  \<^verbatim>\<open>executeQuery(query, userId)\<close>. \<open>run\<close> is the machine's answer to a command line,
  \<open>newSessionId\<close> what \<^verbatim>\<open>crypto.randomUUID()\<close> returns if it is called, and the
  \<open>manager option\<close> the optional \<^verbatim>\<open>sessionManager\<close> the executor was built with (the
  bot passes its own). Everything runs inside one \<^verbatim>\<open>try\<close>; the \<^verbatim>\<open>catch\<close> turns any
  exception into the failure response and keeps the state reached so far.
\<close>

definition executeQuery ::
  "(string \<Rightarrow> proc_outcome) \<Rightarrow> string \<Rightarrow> string \<Rightarrow> string \<Rightarrow> executor \<Rightarrow> manager option \<Rightarrow> world
     \<Rightarrow> response \<times> executor \<times> manager option \<times> world" where
  "executeQuery run newSessionId query uid ex mo w =
     (let created = ex\<lparr>userSessionIds := AList.update uid newSessionId (userSessionIds ex)\<rparr>;
          (command, ex1) =
            (case map_of (userSessionIds ex) uid of
               Some existingSessionId \<Rightarrow>
                 if existingSessionId \<noteq> [] then (resume_command existingSessionId query, ex)
                 else (create_command newSessionId query, created)
             | None \<Rightarrow> (create_command newSessionId query, created))
      in case execCommand run command 300000 of
           Inl e \<Rightarrow> (failed e, ex1, mo, w)
         | Inr (stdout, stderr) \<Rightarrow>
             (let out = (if js_trim stdout \<noteq> [] then js_trim stdout else js_trim stderr)
              in case mo of
                   None \<Rightarrow> (succeeded out stderr, ex1, None, w)
                 | Some m \<Rightarrow>
                     (case addMessage uid User query m w of
                        (Inl e, m1, w1) \<Rightarrow> (failed e, ex1, Some m1, w1)
                      | (Inr _, m1, w1) \<Rightarrow>
                          (case addMessage uid Assistant out m1 w1 of
                             (Inl e, m2, w2) \<Rightarrow> (failed e, ex1, Some m2, w2)
                           | (Inr _, m2, w2) \<Rightarrow> (succeeded out stderr, ex1, Some m2, w2)))))"

definition ClaudeExecutor_clearSession :: "string \<Rightarrow> executor \<Rightarrow> executor" where
  "ClaudeExecutor_clearSession uid ex = ex\<lparr>userSessionIds := AList.delete uid (userSessionIds ex)\<rparr>"

text \<open>
  The \<^verbatim>\<open>/clear\<close> handler of telegram-bot.ts, once the sender is authorised:
  \<^verbatim>\<open>await this.sessionManager.clearSession(userId); this.executor.clearSession(userId)\<close>.
\<close>

definition on_clear ::
  "string \<Rightarrow> executor \<Rightarrow> manager \<Rightarrow> world \<Rightarrow> (js_error + unit) \<times> executor \<times> manager \<times> world" where
  "on_clear uid ex m w =
     (case clearSession uid m w of
        (Inl e, m', w') \<Rightarrow> (Inl e, ex, m', w')
      | (Inr _, m', w') \<Rightarrow> (Inr (), ClaudeExecutor_clearSession uid ex, m', w'))"

section \<open>Notions used in the statements\<close>

text \<open>The session \<^verbatim>\<open>getSession\<close> builds for a user it does not know yet.\<close>

definition fresh_session :: "string \<Rightarrow> world \<Rightarrow> session" where
  "fresh_session uid w =
     \<lparr>userId = uid, messages = [], createdAt = clock w (clock_reads w),
      lastActivityAt = clock w (Suc (clock_reads w))\<rparr>"

text \<open>The \<open>n\<close> most recent entries of a list, in their order.\<close>

definition last_n :: "nat \<Rightarrow> 'a list \<Rightarrow> 'a list" where
  "last_n n xs = drop (length xs - n) xs"

text \<open>The session object after the body of \<^verbatim>\<open>addMessage\<close> has mutated it.\<close>

definition appended :: "session \<Rightarrow> role \<Rightarrow> string \<Rightarrow> int \<Rightarrow> world \<Rightarrow> session" where
  "appended s r c maxN w =
     s\<lparr>messages :=
         (let pushed = messages s @ [\<lparr>role = r, content = c, timestamp = clock w (clock_reads w)\<rparr>]
          in if int (length pushed) > maxN then js_slice (- maxN) pushed else pushed),
       lastActivityAt := clock w (Suc (clock_reads w))\<rparr>"

text \<open>The runtime after one \<^verbatim>\<open>writeFile\<close> of a session, and that call's outcome.\<close>

definition written :: "string \<Rightarrow> session \<Rightarrow> world \<Rightarrow> world" where
  "written uid s w =
     (case io_fault w (io_calls w) of
        None \<Rightarrow> w\<lparr>io_calls := Suc (io_calls w),
                   files := AList.update (sessionFile uid) (JSON_stringify s) (files w)\<rparr>
      | Some msg \<Rightarrow> w\<lparr>io_calls := Suc (io_calls w)\<rparr>)"

definition io_result :: "world \<Rightarrow> js_error + unit" where
  "io_result w = (case io_fault w (io_calls w) of None \<Rightarrow> Inr () | Some msg \<Rightarrow> Inl (Error msg None))"

text \<open>A sequence of \<^verbatim>\<open>addMessage\<close> calls for one user, each awaited before the next.\<close>

fun addMessages :: "string \<Rightarrow> (role \<times> string) list \<Rightarrow> manager \<Rightarrow> world \<Rightarrow> manager \<times> world" where
  "addMessages uid [] m w = (m, w)"
| "addMessages uid ((r, c) # rest) m w =
     (case addMessage uid r c m w of (res, m', w') \<Rightarrow> addMessages uid rest m' w')"

definition turn :: "message \<Rightarrow> role \<times> string" where
  "turn msg = (role msg, content msg)"

text \<open>
  The messages a context of \<open>lastN\<close> turns is built from: the most recent \<open>lastN\<close>
  (10 when omitted), all of them when \<open>lastN\<close> is 0.
\<close>

definition selected :: "int option \<Rightarrow> message list \<Rightarrow> message list" where
  "selected lastN msgs =
     (let n = (case lastN of None \<Rightarrow> 10 | Some n \<Rightarrow> n)
      in if n = 0 then msgs else last_n (nat n) msgs)"

text \<open>
  The outcomes on which \<^verbatim>\<open>execCommand\<close> rejects: a spawn error, the timeout, or a
  close with a code other than 0 after no output at all.
\<close>

definition process_fails :: "proc_outcome \<Rightarrow> bool" where
  "process_fails p =
     (case p of
        SpawnError msg \<Rightarrow> True
      | TimedOut out err \<Rightarrow> True
      | Closed code out err \<Rightarrow> code \<noteq> Some 0 \<and> out = [] \<and> err = [])"

text \<open>The runtime after one \<^verbatim>\<open>unlink\<close> of a user's session file.\<close>

definition unlinked :: "string \<Rightarrow> world \<Rightarrow> world" where
  "unlinked uid w =
     (case io_fault w (io_calls w) of
        None \<Rightarrow> w\<lparr>io_calls := Suc (io_calls w),
                   files := AList.delete (sessionFile uid) (files w)\<rparr>
      | Some msg \<Rightarrow> w\<lparr>io_calls := Suc (io_calls w)\<rparr>)"

text \<open>
  The executor after the first block of \<^verbatim>\<open>executeQuery\<close>: a stored non-empty handle is
  kept, otherwise the new one is stored.
\<close>

definition prepared :: "string \<Rightarrow> string \<Rightarrow> executor \<Rightarrow> executor" where
  "prepared uid newSessionId ex =
     (case map_of (userSessionIds ex) uid of
        Some h \<Rightarrow> if h \<noteq> [] then ex
                  else ex\<lparr>userSessionIds := AList.update uid newSessionId (userSessionIds ex)\<rparr>
      | None \<Rightarrow> ex\<lparr>userSessionIds := AList.update uid newSessionId (userSessionIds ex)\<rparr>)"

definition prepared_command :: "string \<Rightarrow> string \<Rightarrow> string \<Rightarrow> executor \<Rightarrow> string" where
  "prepared_command uid newSessionId query ex =
     (case map_of (userSessionIds ex) uid of
        Some h \<Rightarrow> if h \<noteq> [] then resume_command h query else create_command newSessionId query
      | None \<Rightarrow> create_command newSessionId query)"

text \<open>
  The map after the records of a directory listing have been registered in order, up
  to the first \<^verbatim>\<open>.json\<close> record that does not parse.
\<close>

fun loaded ::
  "(string \<Rightarrow> session option) \<Rightarrow> (string \<times> string) list \<Rightarrow> (string \<times> session) list
     \<Rightarrow> (string \<times> session) list" where
  "loaded parse [] acc = acc"
| "loaded parse ((name, data) # rest) acc =
     (if \<not> endsWith name ''.json'' then loaded parse rest acc
      else case parse data of
             None \<Rightarrow> acc
           | Some s \<Rightarrow> loaded parse rest (AList.update (userId s) s acc))"

section \<open>A reader for the session files\<close>

text \<open>
  A reader for the texts \<open>JSON_stringify\<close> writes, in the layout it writes them.
  \<^verbatim>\<open>JSON.parse\<close> reads these texts to the same objects; the reader shows that the text
  of a session file determines the session.
\<close>

fun strip_prefix :: "string \<Rightarrow> string \<Rightarrow> string option" where
  "strip_prefix [] text = Some text"
| "strip_prefix (p # ps) [] = None"
| "strip_prefix (p # ps) (c # cs) = (if p = c then strip_prefix ps cs else None)"

definition unhex :: "char \<Rightarrow> nat option" where
  "unhex c =
     (let n = (of_char c :: nat)
      in if 48 \<le> n \<and> n \<le> 57 then Some (n - 48)
         else if 97 \<le> n \<and> n \<le> 102 then Some (n - 87)
         else None)"

definition unescape :: "char \<Rightarrow> char option" where
  "unescape e =
     (if e = dquote then Some dquote
      else if e = backslash then Some backslash
      else if e = CHR ''b'' then Some (CHR 0x08)
      else if e = CHR ''f'' then Some (CHR 0x0C)
      else if e = CHR ''n'' then Some (CHR 0x0A)
      else if e = CHR ''r'' then Some (CHR 0x0D)
      else if e = CHR ''t'' then Some (CHR 0x09)
      else None)"

definition consumed :: "'a \<Rightarrow> ('a list \<times> string) option \<Rightarrow> ('a list \<times> string) option" where
  "consumed x r = (case r of None \<Rightarrow> None | Some (xs, rest) \<Rightarrow> Some (x # xs, rest))"

fun read_chars :: "string \<Rightarrow> (string \<times> string) option" where
  "read_chars [] = None"
| "read_chars (c # cs) =
     (if c = dquote then Some ([], cs)
      else if c \<noteq> backslash then consumed c (read_chars cs)
      else (case cs of
              [] \<Rightarrow> None
            | e # r \<Rightarrow>
                if e \<noteq> CHR ''u'' then
                  (case unescape e of None \<Rightarrow> None | Some ch \<Rightarrow> consumed ch (read_chars r))
                else (case r of
                        a # b # x # y # r' \<Rightarrow>
                          (case (unhex a, unhex b, unhex x, unhex y) of
                             (Some 0, Some 0, Some h, Some l) \<Rightarrow>
                               consumed (char_of (16 * h + l)) (read_chars r')
                           | _ \<Rightarrow> None)
                      | _ \<Rightarrow> None)))"

definition read_string :: "string \<Rightarrow> (string \<times> string) option" where
  "read_string text =
     (case text of [] \<Rightarrow> None | c # cs \<Rightarrow> if c = dquote then read_chars cs else None)"


definition is_digit :: "char \<Rightarrow> bool" where
  "is_digit c = (48 \<le> (of_char c :: nat) \<and> (of_char c :: nat) \<le> 57)"

definition digit_value :: "char \<Rightarrow> nat" where
  "digit_value c = of_char c - 48"

definition read_nat :: "string \<Rightarrow> (nat \<times> string) option" where
  "read_nat text =
     (let ds = takeWhile is_digit text
      in if ds = [] then None
         else Some (foldl (\<lambda>n c. 10 * n + digit_value c) 0 ds, dropWhile is_digit text))"

definition read_int :: "string \<Rightarrow> (int \<times> string) option" where
  "read_int text =
     (case text of
        [] \<Rightarrow> None
      | c # cs \<Rightarrow>
          if c = CHR ''-'' then
            (case read_nat cs of None \<Rightarrow> None | Some (n, rest) \<Rightarrow> Some (- int n, rest))
          else (case read_nat text of None \<Rightarrow> None | Some (n, rest) \<Rightarrow> Some (int n, rest)))"


definition read_role :: "string \<Rightarrow> role option" where
  "read_role name =
     (if name = ''user'' then Some User else if name = ''assistant'' then Some Assistant else None)"

definition read_message :: "string \<Rightarrow> (message \<times> string) option" where
  "read_message text =
     do {
       t1 \<leftarrow> strip_prefix (''{'' @ [newline] @ json_key 6 ''role'') text;
       (name, t2) \<leftarrow> read_string t1;
       r \<leftarrow> read_role name;
       t3 \<leftarrow> strip_prefix ('','' @ [newline] @ json_key 6 ''content'') t2;
       (c, t4) \<leftarrow> read_string t3;
       t5 \<leftarrow> strip_prefix ('','' @ [newline] @ json_key 6 ''timestamp'') t4;
       (t, t6) \<leftarrow> read_int t5;
       t7 \<leftarrow> strip_prefix ([newline] @ replicate 4 CHR '' '' @ ''}'') t6;
       Some (\<lparr>role = r, content = c, timestamp = t\<rparr>, t7)
     }"

text \<open>The items of a non-empty array; the fuel bounds their number.\<close>

fun read_items :: "nat \<Rightarrow> string \<Rightarrow> (message list \<times> string) option" where
  "read_items 0 text = None"
| "read_items (Suc fuel) text =
     do {
       t1 \<leftarrow> strip_prefix (replicate 4 CHR '' '') text;
       (m, t2) \<leftarrow> read_message t1;
       case strip_prefix ('','' @ [newline]) t2 of
         Some t3 \<Rightarrow> consumed m (read_items fuel t3)
       | None \<Rightarrow>
           (case strip_prefix ([newline] @ replicate 2 CHR '' '' @ '']'') t2 of
              Some t4 \<Rightarrow> Some ([m], t4)
            | None \<Rightarrow> None)
     }"

definition read_messages :: "string \<Rightarrow> (message list \<times> string) option" where
  "read_messages text =
     (case strip_prefix ''[]'' text of
        Some rest \<Rightarrow> Some ([], rest)
      | None \<Rightarrow>
          (case strip_prefix (''['' @ [newline]) text of
             Some t \<Rightarrow> read_items (length text) t
           | None \<Rightarrow> None))"

definition read_session :: "string \<Rightarrow> session option" where
  "read_session text =
     do {
       t1 \<leftarrow> strip_prefix (''{'' @ [newline] @ json_key 2 ''userId'') text;
       (u, t2) \<leftarrow> read_string t1;
       t3 \<leftarrow> strip_prefix ('','' @ [newline] @ json_key 2 ''messages'') t2;
       (ms, t4) \<leftarrow> read_messages t3;
       t5 \<leftarrow> strip_prefix ('','' @ [newline] @ json_key 2 ''createdAt'') t4;
       (c, t6) \<leftarrow> read_int t5;
       t7 \<leftarrow> strip_prefix ('','' @ [newline] @ json_key 2 ''lastActivityAt'') t6;
       (l, t8) \<leftarrow> read_int t7;
       t9 \<leftarrow> strip_prefix ([newline] @ ''}'') t8;
       if t9 = [] then Some \<lparr>userId = u, messages = ms, createdAt = c, lastActivityAt = l\<rparr>
       else None
     }"

section \<open>Example runs\<close>

definition no_fault :: "nat \<Rightarrow> string option" where
  "no_fault k = None"

definition disk_full :: "nat \<Rightarrow> string option" where
  "disk_full k = Some ''ENOSPC: no space left on device''"

definition ticking :: "nat \<Rightarrow> int" where
  "ticking k = 1000 + int k"

definition healthy_world :: world where
  "healthy_world = \<lparr>files = [], io_fault = no_fault, io_calls = 0, clock = ticking, clock_reads = 0\<rparr>"

definition full_disk_world :: world where
  "full_disk_world = \<lparr>files = [], io_fault = disk_full, io_calls = 0, clock = ticking, clock_reads = 0\<rparr>"

definition hello :: message where
  "hello = \<lparr>role = User, content = ''hello'', timestamp = 1\<rparr>"

definition reply :: message where
  "reply = \<lparr>role = Assistant, content = ''hi there'', timestamp = 2\<rparr>"

definition alice :: session where
  "alice = \<lparr>userId = ''7'', messages = [hello, reply], createdAt = 1, lastActivityAt = 2\<rparr>"

definition alice_manager :: manager where
  "alice_manager = \<lparr>sessions = [(''7'', alice)], maxMessagesPerSession = 50\<rparr>"

definition always :: "proc_outcome \<Rightarrow> string \<Rightarrow> proc_outcome" where
  "always p command = p"

definition alice_world :: world where
  "alice_world =
     \<lparr>files = [(''7.json'', JSON_stringify alice)], io_fault = no_fault, io_calls = 0,
      clock = ticking, clock_reads = 0\<rparr>"

definition alice_executor :: executor where
  "alice_executor = \<lparr>userSessionIds = [(''7'', ''0b7e4a52-uuid'')]\<rparr>"

definition nobody :: executor where
  "nobody = \<lparr>userSessionIds = []\<rparr>"

definition bob :: session where
  "bob = \<lparr>userId = ''8'', messages = [], createdAt = 5, lastActivityAt = 5\<rparr>"

definition shared_world :: world where
  "shared_world =
     \<lparr>files = [(''8.json'', JSON_stringify bob), (''notes.txt'', ''not a session'')],
      io_fault = no_fault, io_calls = 0, clock = ticking, clock_reads = 0\<rparr>"

definition corrupt_record_world :: world where
  "corrupt_record_world =
     \<lparr>files = [(''8.json'', JSON_stringify bob), (''3.json'', ''{ broken''),
               (''7.json'', JSON_stringify alice)],
      io_fault = no_fault, io_calls = 0, clock = ticking, clock_reads = 0\<rparr>"

definition corrupt_neighbour_world :: world where
  "corrupt_neighbour_world =
     \<lparr>files = [(''3.json'', ''{ broken'')],
      io_fault = no_fault, io_calls = 0, clock = ticking, clock_reads = 0\<rparr>"

section \<open>Basic facts\<close>

lemma update_absent: "map_of al k = None \<Longrightarrow> AList.update k v al = al @ [(k, v)]"
  by (induction al) (auto split: if_splits)

lemma map_of_update_same: "map_of (AList.update k v al) k = Some v"
  by (simp add: AList.update_conv')

lemma saveSession_present:
  "map_of (sessions m) uid = Some s \<Longrightarrow> saveSession uid m w = (io_result w, written uid s w)"
  by (simp add: saveSession_def fs_writeFile_def fs_call_def io_result_def written_def
      split: option.splits)

lemma getSession_existing:
  "map_of (sessions m) uid = Some s \<Longrightarrow> getSession uid m w = (Inr s, m, w)"
  by (simp add: getSession_def)

lemma saveSession_updated:
  "saveSession uid (m\<lparr>sessions := AList.update uid s (sessions m)\<rparr>) w = (io_result w, written uid s w)"
  by (rule saveSession_present) (simp add: map_of_update_same)

lemma getSession_absent:
  assumes "map_of (sessions m) uid = None"
  shows "getSession uid m w =
     (case io_result (w\<lparr>clock_reads := clock_reads w + 2\<rparr>) of
        Inr _ \<Rightarrow> Inr (fresh_session uid w) | Inl e \<Rightarrow> Inl e,
      m\<lparr>sessions := sessions m @ [(uid, fresh_session uid w)]\<rparr>,
      written uid (fresh_session uid w) (w\<lparr>clock_reads := clock_reads w + 2\<rparr>))"
proof -
  have app: "AList.update uid s' (sessions m) = sessions m @ [(uid, s')]" for s'
    using assms by (rule update_absent)
  show ?thesis
    using assms
    by (cases "io_result (w\<lparr>clock_reads := Suc (Suc (clock_reads w))\<rparr>)")
       (simp_all add: getSession_def Date_now_def saveSession_updated
        fresh_session_def app[symmetric] Let_def)
qed

lemma addMessage_existing:
  assumes "map_of (sessions m) uid = Some s"
  shows "addMessage uid r c m w =
     (io_result (w\<lparr>clock_reads := clock_reads w + 2\<rparr>),
      m\<lparr>sessions := AList.update uid (appended s r c (maxMessagesPerSession m) w) (sessions m)\<rparr>,
      written uid (appended s r c (maxMessagesPerSession m) w) (w\<lparr>clock_reads := clock_reads w + 2\<rparr>))"
  by (cases "io_result (w\<lparr>clock_reads := Suc (Suc (clock_reads w))\<rparr>)")
     (simp_all add: addMessage_def getSession_existing[OF assms] Date_now_def
        saveSession_updated appended_def Let_def)


lemma js_slice_last: "0 < n \<Longrightarrow> js_slice (- n) xs = last_n (nat n) xs"
proof -
  assume n: "0 < n"
  have "nat (max (int (length xs) - n) 0) = length xs - nat n"
    using n by (simp add: max_def) linarith
  then show ?thesis using n by (simp add: js_slice_def last_n_def Let_def)
qed

lemma last_n_short: "length xs \<le> n \<Longrightarrow> last_n n xs = xs"
  by (simp add: last_n_def)

lemma length_last_n: "length (last_n n xs) = min n (length xs)"
  by (simp add: last_n_def)

lemma last_n_rev: "last_n n xs = rev (take n (rev xs))"
  by (simp add: last_n_def take_rev)

lemma last_n_append: "last_n n (last_n n xs @ ys) = last_n n (xs @ ys)"
  by (simp add: last_n_rev)

lemma map_last_n: "map f (last_n n xs) = last_n n (map f xs)"
  by (simp add: last_n_def drop_map)

lemma messages_appended:
  "0 < maxN \<Longrightarrow> messages (appended s r c maxN w)
     = last_n (nat maxN) (messages s @ [\<lparr>role = r, content = c, timestamp = clock w (clock_reads w)\<rparr>])"
  by (simp add: appended_def Let_def js_slice_last last_n_short)

lemma addMessages_existing:
  assumes "0 < maxMessagesPerSession m" "map_of (sessions m) uid = Some s" "calls \<noteq> []"
  shows "\<exists>s'. map_of (sessions (fst (addMessages uid calls m w))) uid = Some s'
     \<and> map turn (messages s') = last_n (nat (maxMessagesPerSession m)) (map turn (messages s) @ calls)"
  using assms
proof (induction calls arbitrary: m w s)
  case Nil
  then show ?case by simp
next
  case (Cons call rest)
  obtain r c where call: "call = (r, c)" by (cases call)
  let ?s1 = "appended s r c (maxMessagesPerSession m) w"
  let ?m1 = "m\<lparr>sessions := AList.update uid ?s1 (sessions m)\<rparr>"
  let ?w1 = "written uid ?s1 (w\<lparr>clock_reads := clock_reads w + 2\<rparr>)"
  have step: "addMessages uid (call # rest) m w = addMessages uid rest ?m1 ?w1"
    by (simp add: call addMessage_existing[OF Cons.prems(2)])
  have look: "map_of (sessions ?m1) uid = Some ?s1"
    by (simp add: map_of_update_same)
  have one: "map turn (messages ?s1)
      = last_n (nat (maxMessagesPerSession m)) (map turn (messages s) @ [call])"
    using Cons.prems(1) by (simp add: messages_appended map_last_n turn_def call)
  show ?case
    unfolding step
  proof (cases "rest = []")
    case True
    have "map_of (sessions (fst (addMessages uid [] ?m1 ?w1))) uid = Some ?s1"
      using look by simp
    with one show "\<exists>s'. map_of (sessions (fst (addMessages uid rest ?m1 ?w1))) uid = Some s'
        \<and> map turn (messages s') = last_n (nat (maxMessagesPerSession m)) (map turn (messages s) @ call # rest)"
      unfolding True by blast
  next
    case False
    have pos: "0 < maxMessagesPerSession ?m1" using Cons.prems(1) by simp
    from Cons.IH[OF pos look False, of ?w1]
    obtain s' where s': "map_of (sessions (fst (addMessages uid rest ?m1 ?w1))) uid = Some s'"
      "map turn (messages s') = last_n (nat (maxMessagesPerSession ?m1)) (map turn (messages ?s1) @ rest)"
      by blast
    have "map turn (messages s') = last_n (nat (maxMessagesPerSession m)) (map turn (messages s) @ call # rest)"
      using s'(2) last_n_append[of "nat (maxMessagesPerSession m)" "map turn (messages s) @ [call]" rest]
      by (simp add: one)
    with s'(1) show "\<exists>s'. map_of (sessions (fst (addMessages uid rest ?m1 ?w1))) uid = Some s'
        \<and> map turn (messages s') = last_n (nat (maxMessagesPerSession m)) (map turn (messages s) @ call # rest)"
      by blast
  qed
qed


lemma getHistory_existing:
  "map_of (sessions m) uid = Some s \<Longrightarrow> 0 \<le> n \<Longrightarrow>
   getHistory uid (Some n) m w = (Inr (selected (Some n) (messages s)), m, w)"
  by (simp add: getHistory_def getSession_existing selected_def js_slice_last)

lemma selected_suffix: "suffix (selected lastN msgs) msgs"
  by (simp add: selected_def last_n_def Let_def suffix_drop)

lemma selected_nonempty:
  "msgs \<noteq> [] \<Longrightarrow> (\<forall>n. lastN = Some n \<longrightarrow> 0 \<le> n) \<Longrightarrow> selected lastN msgs \<noteq> []"
  by (cases msgs; cases lastN) (auto simp: selected_def last_n_def Let_def)

section \<open>Context construction\<close>

text \<open>
  Claim C5. For a user whose session is in memory and a \<open>lastN\<close> that is omitted or not
  negative, \<^verbatim>\<open>getConversationContext\<close> returns the empty string when the session has no
  messages. Otherwise it returns the text that begins with \<^verbatim>\<open>Previous conversation:\<close>,
  ends with \<^verbatim>\<open>Current query:\<close> and holds in between the selected messages, a final
  segment of the history in its order (oldest first), each rendered as \<^verbatim>\<open>User: \<close> or
  \<^verbatim>\<open>Assistant: \<close> followed by its content, joined by an empty line. Nothing is
  changed by the call.
\<close>

theorem getConversationContext_format:
  assumes "map_of (sessions m) uid = Some s" and "\<forall>n. lastN = Some n \<longrightarrow> 0 \<le> n"
  shows "(messages s = [] \<longrightarrow> getConversationContext uid lastN m w = (Inr [], m, w))
       \<and> (messages s \<noteq> [] \<longrightarrow>
            (\<exists>txt. getConversationContext uid lastN m w = (Inr txt, m, w)
               \<and> txt = ''Previous conversation:'' @ [newline]
                        @ js_join [newline, newline] (map render_message (selected lastN (messages s)))
                        @ [newline, newline] @ ''Current query:''
               \<and> prefix ''Previous conversation:'' txt \<and> suffix ''Current query:'' txt))
       \<and> suffix (selected lastN (messages s)) (messages s)
       \<and> (\<forall>msg. render_message msg
              = (case role msg of User \<Rightarrow> ''User: '' | Assistant \<Rightarrow> ''Assistant: '') @ content msg)"
proof -
  let ?n = "case lastN of None \<Rightarrow> 10 | Some n \<Rightarrow> n"
  have n: "0 \<le> ?n" using assms(2) by (cases lastN) auto
  have sel: "selected (Some ?n) (messages s) = selected lastN (messages s)"
    by (cases lastN) (simp_all add: selected_def)
  have hist: "getHistory uid (Some ?n) m w = (Inr (selected lastN (messages s)), m, w)"
    using getHistory_existing[OF assms(1) n] sel by simp
  have empty: "messages s = [] \<Longrightarrow> selected lastN (messages s) = []"
    by (simp add: selected_def last_n_def Let_def)
  have ne: "messages s \<noteq> [] \<Longrightarrow> selected lastN (messages s) \<noteq> []"
    using selected_nonempty assms(2) by blast
  have render: "render_message msg
      = (case role msg of User \<Rightarrow> ''User: '' | Assistant \<Rightarrow> ''Assistant: '') @ content msg" for msg
    by (cases "role msg") (simp_all add: render_message_def)
  let ?txt = "''Previous conversation:'' @ [newline]
      @ js_join [newline, newline] (map render_message (selected lastN (messages s)))
      @ [newline, newline] @ ''Current query:''"
  have pre: "prefix ''Previous conversation:'' ?txt"
    by (rule prefixI) simp
  have suf: "suffix ''Current query:'' ?txt"
    unfolding suffix_def
    by (rule exI[of _ "''Previous conversation:'' @ [newline]
      @ js_join [newline, newline] (map render_message (selected lastN (messages s)))
      @ [newline, newline]"]) simp
  have full: "messages s \<noteq> [] \<Longrightarrow> getConversationContext uid lastN m w = (Inr ?txt, m, w)"
    using ne by (simp add: getConversationContext_def hist)
  have none: "messages s = [] \<Longrightarrow> getConversationContext uid lastN m w = (Inr [], m, w)"
    using empty by (simp add: getConversationContext_def hist)
  show ?thesis
    using none full pre suf render selected_suffix[of lastN "messages s"]
    by blast
qed

theorem getConversationContext_format_witness:
  "map_of (sessions alice_manager) ''7'' = Some alice
   \<and> getConversationContext ''7'' None alice_manager healthy_world
       = (Inr (''Previous conversation:'' @ [newline] @ ''User: hello'' @ [newline, newline]
               @ ''Assistant: hi there'' @ [newline, newline] @ ''Current query:''),
          alice_manager, healthy_world)"
proof -
  have h: "map_of (sessions alice_manager) ''7'' = Some alice"
    by (simp add: alice_manager_def)
  have ne: "messages alice \<noteq> []"
    by (simp add: alice_def)
  have sel: "selected None (messages alice) = [hello, reply]"
    by (simp add: selected_def last_n_def alice_def)
  from getConversationContext_format[OF h, of None healthy_world] ne sel
  show ?thesis
    using h by (simp add: render_message_def hello_def reply_def)
qed

section \<open>History reads\<close>

text \<open>
  Claim C9. \<^verbatim>\<open>getHistory(userId, 0)\<close> behaves as \<^verbatim>\<open>getHistory(userId)\<close>: the test
  \<^verbatim>\<open>if (lastN)\<close> is false for 0, so for a session in memory all its stored messages
  are returned, not an empty list.
\<close>

theorem getHistory_zero_returns_all:
  "getHistory uid (Some 0) m w = getHistory uid None m w
   \<and> (map_of (sessions m) uid = Some s \<longrightarrow>
        getHistory uid (Some 0) m w = (Inr (messages s), m, w))"
  by (simp add: getHistory_def getSession_existing split: prod.splits sum.splits)

theorem getHistory_zero_returns_all_witness:
  "map_of (sessions alice_manager) ''7'' = Some alice
   \<and> getHistory ''7'' (Some 0) alice_manager healthy_world
       = (Inr [hello, reply], alice_manager, healthy_world)"
proof -
  have h: "map_of (sessions alice_manager) ''7'' = Some alice"
    by (simp add: alice_manager_def)
  have "getHistory ''7'' (Some 0) alice_manager healthy_world
      = (Inr (messages alice), alice_manager, healthy_world)"
    using getHistory_zero_returns_all[of "''7''" alice_manager healthy_world alice] h by blast
  then show ?thesis using h by (simp add: alice_def)
qed

lemma getHistory_state: "snd (getHistory uid lastN m w) = snd (getSession uid m w)"
  by (simp add: getHistory_def split: prod.splits sum.splits option.splits)

lemma getConversationContext_state:
  "snd (getConversationContext uid lastN m w) = snd (getSession uid m w)"
proof -
  let ?n = "Some (case lastN of None \<Rightarrow> 10 | Some n \<Rightarrow> n)"
  obtain r m1 w1 where h: "getHistory uid ?n m w = (r, m1, w1)"
    by (cases "getHistory uid ?n m w") auto
  have "snd (getConversationContext uid lastN m w) = (m1, w1)"
    by (cases r) (simp_all add: getConversationContext_def h)
  then show ?thesis
    using getHistory_state[of uid ?n m w] by (simp add: h)
qed

lemma getSession_absent_state:
  "map_of (sessions m) uid = None \<Longrightarrow>
   snd (getSession uid m w)
     = (m\<lparr>sessions := sessions m @ [(uid, fresh_session uid w)]\<rparr>,
        written uid (fresh_session uid w) (w\<lparr>clock_reads := clock_reads w + 2\<rparr>))"
  by (simp add: getSession_absent)

lemma written_file:
  "io_fault w (io_calls w) = None \<Longrightarrow>
   map_of (files (written uid s w)) (sessionFile uid) = Some (JSON_stringify s)"
  by (simp add: written_def map_of_update_same)

section \<open>Reads that create sessions\<close>

text \<open>
  Claim C10. \<^verbatim>\<open>getHistory\<close> and \<^verbatim>\<open>getConversationContext\<close> are not free of effects:
  called for a user with no session in memory, each registers a fresh empty session
  at the end of the map and calls \<^verbatim>\<open>writeFile\<close> for it, so \<^verbatim>\<open>getStats().totalSessions\<close>
  grows by one, and the session file holds the fresh session when the write is not
  rejected.
\<close>

theorem reads_create_sessions:
  assumes "map_of (sessions m) uid = None"
  shows "snd (getHistory uid lastN m w)
           = (m\<lparr>sessions := sessions m @ [(uid, fresh_session uid w)]\<rparr>,
              written uid (fresh_session uid w) (w\<lparr>clock_reads := clock_reads w + 2\<rparr>))
       \<and> snd (getConversationContext uid lastN m w) = snd (getHistory uid lastN m w)
       \<and> totalSessions (getStats (fst (snd (getHistory uid lastN m w))))
           = totalSessions (getStats m) + 1
       \<and> io_calls (snd (snd (getHistory uid lastN m w))) = io_calls w + 1
       \<and> (io_fault w (io_calls w) = None \<longrightarrow>
            map_of (files (snd (snd (getHistory uid lastN m w)))) (sessionFile uid)
              = Some (JSON_stringify (fresh_session uid w)))"
proof -
  have st: "snd (getHistory uid lastN m w)
      = (m\<lparr>sessions := sessions m @ [(uid, fresh_session uid w)]\<rparr>,
         written uid (fresh_session uid w) (w\<lparr>clock_reads := clock_reads w + 2\<rparr>))"
    using assms by (simp add: getHistory_state getSession_absent_state)
  have same: "snd (getConversationContext uid lastN m w) = snd (getHistory uid lastN m w)"
    by (simp add: getHistory_state getConversationContext_state)
  have count: "totalSessions (getStats (fst (snd (getHistory uid lastN m w))))
      = totalSessions (getStats m) + 1"
    by (simp add: st getStats_def)
  have calls: "io_calls (snd (snd (getHistory uid lastN m w))) = io_calls w + 1"
    by (simp add: st written_def split: option.splits)
  have fl: "io_fault w (io_calls w) = None \<Longrightarrow>
      map_of (files (snd (snd (getHistory uid lastN m w)))) (sessionFile uid)
        = Some (JSON_stringify (fresh_session uid w))"
    by (simp add: st written_file)
  from st same count calls fl show ?thesis by blast
qed

theorem reads_create_sessions_witness:
  "map_of (sessions (new_SessionManager None)) ''7'' = None
   \<and> totalSessions (getStats (new_SessionManager None)) = 0
   \<and> totalSessions (getStats (fst (snd (getHistory ''7'' None (new_SessionManager None) healthy_world)))) = 1
   \<and> map fst (files (snd (snd (getConversationContext ''7'' None (new_SessionManager None) healthy_world))))
        = [''7.json'']"
proof -
  have h: "map_of (sessions (new_SessionManager None)) ''7'' = None"
    by (simp add: new_SessionManager_def)
  have z: "totalSessions (getStats (new_SessionManager None)) = 0"
    by (simp add: new_SessionManager_def getStats_def)
  note r = reads_create_sessions[OF h, of None healthy_world]
  have one: "totalSessions (getStats (fst (snd (getHistory ''7'' None (new_SessionManager None) healthy_world)))) = 1"
    using r[THEN conjunct2, THEN conjunct2, THEN conjunct1] z by simp
  have st: "snd (getConversationContext ''7'' None (new_SessionManager None) healthy_world)
      = (new_SessionManager None\<lparr>sessions := sessions (new_SessionManager None) @ [(''7'', fresh_session ''7'' healthy_world)]\<rparr>,
         written ''7'' (fresh_session ''7'' healthy_world) (healthy_world\<lparr>clock_reads := clock_reads healthy_world + 2\<rparr>))"
    using r[THEN conjunct1] r[THEN conjunct2, THEN conjunct1] by simp
  have fs: "map fst (files (snd (snd (getConversationContext ''7'' None (new_SessionManager None) healthy_world))))
        = [''7.json'']"
    unfolding st by (simp add: written_def healthy_world_def no_fault_def sessionFile_def)
  from h z one fs show ?thesis by blast
qed

section \<open>Storage failures\<close>

lemma delete_absent: "map_of al k = None \<Longrightarrow> AList.delete k al = al"
  by (simp add: map_of_eq_None_iff)

lemma map_of_snoc_absent: "map_of al k = None \<Longrightarrow> map_of (al @ [(k, v)]) k = Some v"
  by (simp add: map_add_def)

lemma clearSession_eq:
  "clearSession uid m w = (Inr (), m\<lparr>sessions := AList.delete uid (sessions m)\<rparr>, unlinked uid w)"
  by (simp add: clearSession_def fs_unlink_def fs_call_def unlinked_def delete_absent
      split: option.splits)

lemma addMessage_absent_rejected:
  assumes "map_of (sessions m) uid = None" "io_fault w (io_calls w) = Some msg"
  shows "addMessage uid r c m w =
     (Inl (Error msg None), m\<lparr>sessions := sessions m @ [(uid, fresh_session uid w)]\<rparr>,
      written uid (fresh_session uid w) (w\<lparr>clock_reads := clock_reads w + 2\<rparr>))"
  using assms by (simp add: addMessage_def getSession_absent io_result_def)

text \<open>
  Claim C3, as the code has it. Only \<^verbatim>\<open>clearSession\<close> swallows a storage failure: it
  never rejects. \<^verbatim>\<open>getSession\<close> does no storage call for a session in memory; when it
  creates one and the write is rejected, it rejects with the write's error, and so
  does \<^verbatim>\<open>addMessage\<close>, at the write of the new session or at the write after the
  append. The memory is updated before the write in each case: the new session is
  registered, the message appended, and a later \<^verbatim>\<open>getSession\<close> returns that session.
\<close>

theorem storage_failure_propagates:
  "fst (clearSession uid m w) = Inr ()
   \<and> (map_of (sessions m) uid = Some s \<longrightarrow> getSession uid m w = (Inr s, m, w))
   \<and> (map_of (sessions m) uid = None \<and> io_fault w (io_calls w) = Some msg \<longrightarrow>
        fst (getSession uid m w) = Inl (Error msg None)
        \<and> fst (addMessage uid r c m w) = Inl (Error msg None)
        \<and> map_of (sessions (fst (snd (getSession uid m w)))) uid = Some (fresh_session uid w)
        \<and> map_of (sessions (fst (snd (addMessage uid r c m w)))) uid = Some (fresh_session uid w))
   \<and> (map_of (sessions m) uid = Some s \<and> io_fault w (io_calls w) = Some msg \<longrightarrow>
        fst (addMessage uid r c m w) = Inl (Error msg None)
        \<and> map_of (sessions (fst (snd (addMessage uid r c m w)))) uid
            = Some (appended s r c (maxMessagesPerSession m) w))"
proof -
  have clear: "fst (clearSession uid m w) = Inr ()"
    by (simp add: clearSession_eq)
  have known: "map_of (sessions m) uid = Some s \<Longrightarrow> getSession uid m w = (Inr s, m, w)"
    by (rule getSession_existing)
  have created: "fst (getSession uid m w) = Inl (Error msg None)
      \<and> fst (addMessage uid r c m w) = Inl (Error msg None)
      \<and> map_of (sessions (fst (snd (getSession uid m w)))) uid = Some (fresh_session uid w)
      \<and> map_of (sessions (fst (snd (addMessage uid r c m w)))) uid = Some (fresh_session uid w)"
    if "map_of (sessions m) uid = None" "io_fault w (io_calls w) = Some msg"
    using that
    by (simp add: getSession_absent addMessage_absent_rejected io_result_def map_of_snoc_absent
        del: map_of_append)
  have added: "fst (addMessage uid r c m w) = Inl (Error msg None)
      \<and> map_of (sessions (fst (snd (addMessage uid r c m w)))) uid
          = Some (appended s r c (maxMessagesPerSession m) w)"
    if "map_of (sessions m) uid = Some s" "io_fault w (io_calls w) = Some msg"
    using that by (simp add: addMessage_existing io_result_def map_of_update_same)
  from clear known created added show ?thesis by blast
qed

theorem storage_failure_propagates_witness:
  "map_of (sessions alice_manager) ''7'' = Some alice
   \<and> io_fault full_disk_world (io_calls full_disk_world) = Some ''ENOSPC: no space left on device''
   \<and> fst (addMessage ''7'' User ''again'' alice_manager full_disk_world)
       = Inl (Error ''ENOSPC: no space left on device'' None)
   \<and> map (map content \<circ> messages \<circ> snd)
        (sessions (fst (snd (addMessage ''7'' User ''again'' alice_manager full_disk_world))))
       = [[''hello'', ''hi there'', ''again'']]"
proof -
  have h: "map_of (sessions alice_manager) ''7'' = Some alice"
    by (simp add: alice_manager_def)
  have f: "io_fault full_disk_world (io_calls full_disk_world) = Some ''ENOSPC: no space left on device''"
    by (simp add: full_disk_world_def disk_full_def)
  have r: "fst (addMessage ''7'' User ''again'' alice_manager full_disk_world)
      = Inl (Error ''ENOSPC: no space left on device'' None)"
    using storage_failure_propagates[of "''7''" alice_manager full_disk_world alice
        "''ENOSPC: no space left on device''" User "''again''"] h f
    by blast
  have s: "sessions (fst (snd (addMessage ''7'' User ''again'' alice_manager full_disk_world)))
      = [(''7'', appended alice User ''again'' 50 full_disk_world)]"
    using addMessage_existing[OF h, of User "''again''" full_disk_world]
    by (simp add: alice_manager_def)
  from h f r s show ?thesis
    by (simp add: appended_def alice_def hello_def reply_def Let_def)
qed

text \<open>
  Claim C3 as the spec states it fails: with the disk full, \<^verbatim>\<open>getSession\<close> for a new
  user and \<^verbatim>\<open>addMessage\<close> for a known one reject with the write's error.
\<close>

theorem storage_failure_reaches_caller:
  "fst (getSession ''7'' (new_SessionManager None) full_disk_world)
     = Inl (Error ''ENOSPC: no space left on device'' None)
   \<and> fst (addMessage ''7'' User ''again'' alice_manager full_disk_world)
     = Inl (Error ''ENOSPC: no space left on device'' None)"
  by (simp add: getSession_def addMessage_def saveSession_def fs_writeFile_def fs_call_def
      Date_now_def new_SessionManager_def alice_manager_def full_disk_world_def disk_full_def
      Let_def)

section \<open>Clearing\<close>

lemma on_clear_eq:
  "on_clear uid ex m w =
     (Inr (), ex\<lparr>userSessionIds := AList.delete uid (userSessionIds ex)\<rparr>,
      m\<lparr>sessions := AList.delete uid (sessions m)\<rparr>, unlinked uid w)"
  by (simp add: on_clear_def clearSession_eq ClaudeExecutor_clearSession_def)

lemma map_of_delete_same: "map_of (AList.delete k al) k = None"
  by (simp add: AList.delete_conv')

lemma fresh_session_unlinked: "fresh_session uid (unlinked uid' w) = fresh_session uid w"
  by (simp add: fresh_session_def unlinked_def split: option.splits)

lemma io_fault_unlinked:
  "io_fault (unlinked uid w) (io_calls (unlinked uid w)) = io_fault w (Suc (io_calls w))"
  by (simp add: unlinked_def split: option.splits)

text \<open>
  Claim C8. The \<^verbatim>\<open>/clear\<close> handler never fails, removes the user's session from memory
  and the user's handle from the executor, and removes the session file when the
  \<^verbatim>\<open>unlink\<close> call is not rejected by the file system. A following \<^verbatim>\<open>getSession\<close>
  registers a session with no messages whose two timestamps are the next two clock
  readings, and returns it when its write is not rejected. Clearing again, with
  nothing left to clear, does not fail either.
\<close>

theorem clear_invalidates_both:
  "(case on_clear uid ex m w of
      (res, ex', m', w') \<Rightarrow>
        res = Inr ()
        \<and> map_of (sessions m') uid = None
        \<and> map_of (userSessionIds ex') uid = None
        \<and> (io_fault w (io_calls w) = None \<longrightarrow> map_of (files w') (sessionFile uid) = None)
        \<and> map_of (sessions (fst (snd (getSession uid m' w')))) uid
            = Some \<lparr>userId = uid, messages = [], createdAt = clock w (clock_reads w),
                    lastActivityAt = clock w (Suc (clock_reads w))\<rparr>
        \<and> (io_fault w (Suc (io_calls w)) = None \<longrightarrow>
             fst (getSession uid m' w')
               = Inr \<lparr>userId = uid, messages = [], createdAt = clock w (clock_reads w),
                      lastActivityAt = clock w (Suc (clock_reads w))\<rparr>)
        \<and> fst (on_clear uid ex' m' w') = Inr ())"
proof -
  let ?m = "m\<lparr>sessions := AList.delete uid (sessions m)\<rparr>"
  let ?w = "unlinked uid w"
  have gone: "map_of (sessions ?m) uid = None"
    by (simp add: map_of_delete_same)
  have fl: "io_fault w (io_calls w) = None \<Longrightarrow> map_of (files ?w) (sessionFile uid) = None"
    by (simp add: unlinked_def map_of_delete_same)
  have fresh: "fresh_session uid ?w
      = \<lparr>userId = uid, messages = [], createdAt = clock w (clock_reads w),
         lastActivityAt = clock w (Suc (clock_reads w))\<rparr>"
    by (simp add: fresh_session_unlinked) (simp add: fresh_session_def)
  have reg: "map_of (sessions (fst (snd (getSession uid ?m ?w)))) uid = Some (fresh_session uid ?w)"
    using gone by (simp add: getSession_absent[OF gone] map_of_snoc_absent del: map_of_append)
  have ret: "io_fault w (Suc (io_calls w)) = None \<Longrightarrow>
      fst (getSession uid ?m ?w) = Inr (fresh_session uid ?w)"
    using io_fault_unlinked[of uid w]
    by (simp add: getSession_absent[OF gone] io_result_def)
  show ?thesis
    using gone fl reg ret
    by (simp add: on_clear_eq map_of_delete_same fresh)
qed

theorem clear_invalidates_both_witness:
  "io_fault alice_world (io_calls alice_world) = None
   \<and> io_fault alice_world (Suc (io_calls alice_world)) = None
   \<and> map_of (sessions alice_manager) ''7'' = Some alice
   \<and> map_of (files alice_world) (sessionFile ''7'') = Some (JSON_stringify alice)
   \<and> fst (on_clear ''7'' alice_executor alice_manager alice_world) = Inr ()
   \<and> map_of (files (snd (snd (snd (on_clear ''7'' alice_executor alice_manager alice_world)))))
        (sessionFile ''7'') = None
   \<and> fst (getSession ''7''
        (fst (snd (snd (on_clear ''7'' alice_executor alice_manager alice_world))))
        (snd (snd (snd (on_clear ''7'' alice_executor alice_manager alice_world)))))
       = Inr \<lparr>userId = ''7'', messages = [], createdAt = 1000, lastActivityAt = 1001\<rparr>"
proof -
  have f0: "io_fault alice_world (io_calls alice_world) = None"
    and f1: "io_fault alice_world (Suc (io_calls alice_world)) = None"
    by (simp_all add: alice_world_def no_fault_def)
  have h: "map_of (sessions alice_manager) ''7'' = Some alice"
    by (simp add: alice_manager_def)
  have d: "map_of (files alice_world) (sessionFile ''7'') = Some (JSON_stringify alice)"
    by (simp add: alice_world_def sessionFile_def)
  have c: "clock alice_world (clock_reads alice_world) = 1000"
    "clock alice_world (Suc (clock_reads alice_world)) = 1001"
    by (simp_all add: alice_world_def ticking_def)
  obtain res ex' m' w' where o: "on_clear ''7'' alice_executor alice_manager alice_world = (res, ex', m', w')"
    by (cases "on_clear ''7'' alice_executor alice_manager alice_world") auto
  from clear_invalidates_both[where uid = "''7''" and ex = alice_executor and m = alice_manager
      and w = alice_world] f0 f1 c
  have "res = Inr () \<and> map_of (files w') (sessionFile ''7'') = None
      \<and> fst (getSession ''7'' m' w')
          = Inr \<lparr>userId = ''7'', messages = [], createdAt = 1000, lastActivityAt = 1001\<rparr>"
    by (simp add: o)
  with f0 f1 h d show ?thesis by (simp add: o)
qed

section \<open>Bounded history\<close>

text \<open>
  With a bound of at least 1 the history is bounded as intended: after a non-empty
  sequence of \<^verbatim>\<open>addMessage\<close> calls for a user whose session is in memory, whatever
  the storage does, the session holds the most recent \<open>maxMessagesPerSession\<close> turns
  of the old history followed by the new turns, in their order.
\<close>

lemma addMessages_bounded:
  assumes "0 < maxMessagesPerSession m" "map_of (sessions m) uid = Some s" "calls \<noteq> []"
  shows "\<exists>s'. map_of (sessions (fst (addMessages uid calls m w))) uid = Some s'
     \<and> map turn (messages s') = last_n (nat (maxMessagesPerSession m)) (map turn (messages s) @ calls)
     \<and> int (length (messages s')) \<le> maxMessagesPerSession m"
proof -
  from addMessages_existing[OF assms, of w]
  obtain s' where s': "map_of (sessions (fst (addMessages uid calls m w))) uid = Some s'"
    "map turn (messages s') = last_n (nat (maxMessagesPerSession m)) (map turn (messages s) @ calls)"
    by blast
  have "length (map turn (messages s')) \<le> nat (maxMessagesPerSession m)"
    unfolding s'(2) by (simp add: length_last_n)
  then have "int (length (messages s')) \<le> maxMessagesPerSession m"
    using assms(1) by simp
  with s' show ?thesis by blast
qed

text \<open>The same for a user with no session yet, when the write of the new session succeeds.\<close>

lemma addMessage_absent_written:
  assumes "map_of (sessions m) uid = None" "io_fault w (io_calls w) = None"
  shows "addMessage uid r c m w
     = addMessage uid r c (m\<lparr>sessions := sessions m @ [(uid, fresh_session uid w)]\<rparr>)
         (written uid (fresh_session uid w) (w\<lparr>clock_reads := clock_reads w + 2\<rparr>))"
proof -
  let ?m = "m\<lparr>sessions := sessions m @ [(uid, fresh_session uid w)]\<rparr>"
  have look: "map_of (sessions ?m) uid = Some (fresh_session uid w)"
    using assms(1) by (simp add: map_of_snoc_absent del: map_of_append)
  show ?thesis
    using assms
    by (simp add: addMessage_def[of uid r c m w] getSession_absent io_result_def
        addMessage_def[of uid r c ?m] getSession_existing[OF look])
qed

lemma addMessages_new_user:
  assumes "0 < maxMessagesPerSession m" "map_of (sessions m) uid = None"
    "io_fault w (io_calls w) = None" "calls \<noteq> []"
  shows "\<exists>s'. map_of (sessions (fst (addMessages uid calls m w))) uid = Some s'
     \<and> map turn (messages s') = last_n (nat (maxMessagesPerSession m)) calls
     \<and> int (length (messages s')) \<le> maxMessagesPerSession m"
proof -
  let ?m = "m\<lparr>sessions := sessions m @ [(uid, fresh_session uid w)]\<rparr>"
  let ?w = "written uid (fresh_session uid w) (w\<lparr>clock_reads := clock_reads w + 2\<rparr>)"
  obtain r c rest where calls: "calls = (r, c) # rest"
    using assms(4) by (cases calls) auto
  have same: "addMessages uid calls m w = addMessages uid calls ?m ?w"
    by (simp add: calls addMessage_absent_written[OF assms(2,3)])
  have look: "map_of (sessions ?m) uid = Some (fresh_session uid w)"
    using assms(2) by (simp add: map_of_snoc_absent del: map_of_append)
  have pos: "0 < maxMessagesPerSession ?m"
    using assms(1) by simp
  from addMessages_bounded[OF pos look assms(4), of ?w]
  show ?thesis
    by (simp add: same fresh_session_def)
qed

text \<open>With the bound 0 nothing is ever dropped: \<^verbatim>\<open>slice(-0)\<close> is the whole array.\<close>

lemma messages_appended_bound_zero:
  "messages (appended s r c 0 w)
     = messages s @ [\<lparr>role = r, content = c, timestamp = clock w (clock_reads w)\<rparr>]"
  by (simp add: appended_def Let_def js_slice_def)

text \<open>
  Claim C1 fails on the code for the bound 0. A manager built with
  \<open>maxMessagesPerSession = 0\<close> keeps both messages of a first exchange, and a third
  one after them: the list is longer than the bound and grows with every call.
\<close>

theorem addMessage_bound_zero_keeps_all:
  "maxMessagesPerSession (fst (addMessages ''7'' [(User, ''a''), (Assistant, ''b''), (User, ''c'')]
      (new_SessionManager (Some 0)) healthy_world)) = 0
   \<and> map (map turn \<circ> messages \<circ> snd)
        (sessions (fst (addMessages ''7'' [(User, ''a''), (Assistant, ''b''), (User, ''c'')]
           (new_SessionManager (Some 0)) healthy_world)))
       = [[(User, ''a''), (Assistant, ''b''), (User, ''c'')]]"
  by (simp add: addMessage_def getSession_def saveSession_def fs_writeFile_def fs_call_def
      Date_now_def new_SessionManager_def healthy_world_def no_fault_def js_slice_def
      turn_def Let_def)

section \<open>Process failures\<close>

lemma digit_chars:
  "digit_char 0 = CHR ''0''" "digit_char 1 = CHR ''1''" "digit_char 2 = CHR ''2''"
  "digit_char 3 = CHR ''3''" "digit_char 4 = CHR ''4''" "digit_char 5 = CHR ''5''"
  "digit_char 6 = CHR ''6''" "digit_char 7 = CHR ''7''" "digit_char 8 = CHR ''8''"
  "digit_char 9 = CHR ''9''"
  unfolding digit_char_def by code_simp+

lemma executeQuery_unfold:
  "executeQuery run newSessionId query uid ex mo w =
     (case execCommand run (prepared_command uid newSessionId query ex) 300000 of
        Inl e \<Rightarrow> (failed e, prepared uid newSessionId ex, mo, w)
      | Inr (stdout, stderr) \<Rightarrow>
          (let out = (if js_trim stdout \<noteq> [] then js_trim stdout else js_trim stderr)
           in case mo of
                None \<Rightarrow> (succeeded out stderr, prepared uid newSessionId ex, None, w)
              | Some m \<Rightarrow>
                  (case addMessage uid User query m w of
                     (Inl e, m1, w1) \<Rightarrow> (failed e, prepared uid newSessionId ex, Some m1, w1)
                   | (Inr _, m1, w1) \<Rightarrow>
                       (case addMessage uid Assistant out m1 w1 of
                          (Inl e, m2, w2) \<Rightarrow> (failed e, prepared uid newSessionId ex, Some m2, w2)
                        | (Inr _, m2, w2) \<Rightarrow>
                            (succeeded out stderr, prepared uid newSessionId ex, Some m2, w2)))))"
proof -
  let ?created = "ex\<lparr>userSessionIds := AList.update uid newSessionId (userSessionIds ex)\<rparr>"
  consider (fresh) "prepared uid newSessionId ex = ?created"
      "prepared_command uid newSessionId query ex = create_command newSessionId query"
      "map_of (userSessionIds ex) uid = None \<or> map_of (userSessionIds ex) uid = Some []"
    | (resumed) h where "prepared uid newSessionId ex = ex"
      "prepared_command uid newSessionId query ex = resume_command h query"
      "map_of (userSessionIds ex) uid = Some h" "h \<noteq> []"
    by (cases "map_of (userSessionIds ex) uid")
       (auto simp: prepared_def prepared_command_def)
  then show ?thesis
  proof cases
    case fresh
    show ?thesis
      unfolding fresh(1,2)
      using fresh(3) by (auto simp: executeQuery_def Let_def)
  next
    case resumed
    show ?thesis
      unfolding resumed(1,2)
      using resumed(3,4) by (simp add: executeQuery_def Let_def)
  qed
qed

lemma executeQuery_executor:
  "fst (snd (executeQuery run newSessionId query uid ex mo w)) = prepared uid newSessionId ex"
  by (simp add: executeQuery_unfold Let_def split: sum.splits prod.splits option.splits)

lemma failed_description: "\<exists>d. error (failed e) = Some d \<and> d \<noteq> []"
  by (simp add: failed_def)

lemma executeQuery_rejected:
  assumes "process_fails (run (prepared_command uid newSessionId query ex))"
  shows "\<exists>e. executeQuery run newSessionId query uid ex mo w
            = (failed e, prepared uid newSessionId ex, mo, w)"
proof -
  from assms obtain e where "execCommand run (prepared_command uid newSessionId query ex) 300000 = Inl e"
    by (cases "run (prepared_command uid newSessionId query ex)")
       (auto simp: execCommand_def process_fails_def)
  then show ?thesis by (auto simp: executeQuery_unfold)
qed

text \<open>
  Claim C2, as the code has it. When the process cannot be spawned, is still running
  at the timeout, or closes with a code other than 0 without having written anything
  to standard output or standard error, \<^verbatim>\<open>executeQuery\<close> answers with \<open>success = False\<close>
  and an error description that is not empty, and the session manager and the
  storage are exactly as before: the turn is not appended.
\<close>

theorem process_failure_response:
  assumes "\<forall>command. process_fails (run command)"
  shows "(case executeQuery run newSessionId query uid ex mo w of
            (r, ex', mo', w') \<Rightarrow>
              success r = False \<and> (\<exists>d. error r = Some d \<and> d \<noteq> []) \<and> mo' = mo \<and> w' = w)"
proof -
  from assms have "process_fails (run (prepared_command uid newSessionId query ex))"
    by blast
  from executeQuery_rejected[where run = run and mo = mo and w = w, OF this]
  obtain e where "executeQuery run newSessionId query uid ex mo w
      = (failed e, prepared uid newSessionId ex, mo, w)"
    by blast
  then show ?thesis
    using failed_description[of e] by (simp add: failed_def)
qed

theorem process_failure_response_witness:
  "process_fails (TimedOut ''partial'' [])
   \<and> executeQuery (always (TimedOut ''partial'' [])) ''0b7e'' ''status?'' ''7'' nobody
        (Some alice_manager) healthy_world
      = (\<lparr>success = False, output = [], error = Some ''Command timed out after 300000ms''\<rparr>,
         \<lparr>userSessionIds = [(''7'', ''0b7e'')]\<rparr>, Some alice_manager, healthy_world)"
proof -
  have h: "\<forall>command. process_fails (always (TimedOut ''partial'' []) command)"
    by (simp add: always_def process_fails_def)
  have t: "show_nat 300000 = ''300000''"
    by (simp add: show_nat.simps digit_chars)
  obtain r ex' mo' w' where o: "executeQuery (always (TimedOut ''partial'' [])) ''0b7e'' ''status?'' ''7'' nobody
        (Some alice_manager) healthy_world = (r, ex', mo', w')"
    by (cases "executeQuery (always (TimedOut ''partial'' [])) ''0b7e'' ''status?'' ''7'' nobody
        (Some alice_manager) healthy_world") auto
  from process_failure_response[OF h, where newSessionId = "''0b7e''" and query = "''status?''"
      and uid = "''7''" and ex = nobody and mo = "Some alice_manager" and w = healthy_world]
  have st: "mo' = Some alice_manager" "w' = healthy_world"
    by (simp_all add: o)
  have rest: "r = \<lparr>success = False, output = [], error = Some ''Command timed out after 300000ms''\<rparr>"
    "ex' = \<lparr>userSessionIds = [(''7'', ''0b7e'')]\<rparr>"
    using o
    by (simp_all add: executeQuery_unfold execCommand_def always_def failed_def prepared_def
        nobody_def t)
  show ?thesis
    using st rest by (simp add: o process_fails_def)
qed

text \<open>
  On those failures the response carries no output at all: the error of a timeout or
  of a spawn failure has no \<^verbatim>\<open>stdout\<close> property, and a close is a failure only when
  nothing was written.
\<close>

lemma process_failure_output:
  assumes "process_fails (run (prepared_command uid newSessionId query ex))"
  shows "output (fst (executeQuery run newSessionId query uid ex mo w)) = []"
  using assms
  by (cases "run (prepared_command uid newSessionId query ex)")
     (auto simp: executeQuery_unfold execCommand_def process_fails_def failed_def)

text \<open>
  Claim C2 as the spec states it fails: a process that writes to standard output and
  exits with code 1 is a success for \<^verbatim>\<open>execCommand\<close>, and the turn is appended.
\<close>

theorem nonzero_exit_with_output_succeeds:
  "success (fst (executeQuery (always (Closed (Some 1) ''partial'' [])) ''0b7e'' ''status?'' ''7''
      nobody (Some (new_SessionManager None)) healthy_world)) = True
   \<and> map_option (map (map turn \<circ> messages \<circ> snd) \<circ> sessions)
        (fst (snd (snd (executeQuery (always (Closed (Some 1) ''partial'' [])) ''0b7e'' ''status?'' ''7''
           nobody (Some (new_SessionManager None)) healthy_world))))
       = Some [[(User, ''status?''), (Assistant, ''partial'')]]"
  by (simp add: executeQuery_unfold execCommand_def always_def js_trim_def is_js_space_def
      addMessage_def getSession_def saveSession_def fs_writeFile_def fs_call_def Date_now_def
      new_SessionManager_def healthy_world_def no_fault_def js_slice_def succeeded_def
      turn_def Let_def)

section \<open>Handles\<close>

lemma map_of_prepared:
  "map_of (userSessionIds (prepared uid newSessionId ex)) u =
     (if u = uid then
        (case map_of (userSessionIds ex) uid of
           Some h \<Rightarrow> if h \<noteq> [] then Some h else Some newSessionId
         | None \<Rightarrow> Some newSessionId)
      else map_of (userSessionIds ex) u)"
  by (auto simp: prepared_def AList.update_conv' split: option.splits)

text \<open>
  Claim C6, as the code has it. After a failed \<^verbatim>\<open>executeQuery\<close> a user who held a
  handle holds the same handle, a user who held none holds the handle generated for
  this call (it is stored before the process is started and not removed when the
  call fails), and the handles of the other users are as before.
\<close>

theorem handle_after_failed_query:
  assumes "success (fst (executeQuery run newSessionId query uid ex mo w)) = False"
  shows "(\<forall>h. map_of (userSessionIds ex) uid = Some h \<and> h \<noteq> [] \<longrightarrow>
            map_of (userSessionIds (fst (snd (executeQuery run newSessionId query uid ex mo w)))) uid
              = Some h)
       \<and> (map_of (userSessionIds ex) uid = None \<longrightarrow>
            map_of (userSessionIds (fst (snd (executeQuery run newSessionId query uid ex mo w)))) uid
              = Some newSessionId)
       \<and> (\<forall>u. u \<noteq> uid \<longrightarrow>
            map_of (userSessionIds (fst (snd (executeQuery run newSessionId query uid ex mo w)))) u
              = map_of (userSessionIds ex) u)"
  by (simp add: executeQuery_executor map_of_prepared)

theorem handle_after_failed_query_witness:
  "success (fst (executeQuery (always (SpawnError ''spawn /bin/sh ENOENT'')) ''1c9d'' ''status?'' ''7''
      alice_executor None healthy_world)) = False
   \<and> map_of (userSessionIds alice_executor) ''7'' = Some ''0b7e4a52-uuid''
   \<and> map_of (userSessionIds (fst (snd (executeQuery (always (SpawnError ''spawn /bin/sh ENOENT''))
        ''1c9d'' ''status?'' ''7'' alice_executor None healthy_world)))) ''7''
       = Some ''0b7e4a52-uuid''"
proof -
  have f: "success (fst (executeQuery (always (SpawnError ''spawn /bin/sh ENOENT'')) ''1c9d'' ''status?'' ''7''
      alice_executor None healthy_world)) = False"
    by (simp add: executeQuery_unfold execCommand_def always_def failed_def)
  have h: "map_of (userSessionIds alice_executor) ''7'' = Some ''0b7e4a52-uuid''"
    by (simp add: alice_executor_def)
  from handle_after_failed_query[OF f] h
  have "map_of (userSessionIds (fst (snd (executeQuery (always (SpawnError ''spawn /bin/sh ENOENT''))
        ''1c9d'' ''status?'' ''7'' alice_executor None healthy_world)))) ''7''
       = Some ''0b7e4a52-uuid''"
    by simp
  with f h show ?thesis by blast
qed

text \<open>
  Claim C6 as the spec states it fails: a user who held no handle holds one after a
  query that timed out.
\<close>

theorem fresh_user_holds_handle_after_failure:
  "success (fst (executeQuery (always (TimedOut [] [])) ''0b7e'' ''status?'' ''7'' nobody None
      healthy_world)) = False
   \<and> map_of (userSessionIds nobody) ''7'' = None
   \<and> map_of (userSessionIds (fst (snd (executeQuery (always (TimedOut [] [])) ''0b7e'' ''status?''
        ''7'' nobody None healthy_world)))) ''7'' = Some ''0b7e''"
  by (simp add: executeQuery_unfold execCommand_def always_def failed_def prepared_def nobody_def)

section \<open>The text of a session file determines the session\<close>

lemma strip_prefix_append: "strip_prefix p (p @ rest) = Some rest"
  by (induction p) simp_all

lemma unhex_hex_digit: "d < 16 \<Longrightarrow> unhex (hex_digit d) = Some d"
  by (auto simp: unhex_def hex_digit_def Let_def)

lemma unhex_zero: "unhex CHR ''0'' = Some 0"
  by (simp add: unhex_def)

lemma read_chars_control:
  assumes "(of_char c :: nat) < 32"
  shows "read_chars ((backslash # ''u00'' @ [hex_digit (of_char c div 16), hex_digit (of_char c mod 16)]) @ t)
           = consumed c (read_chars t)"
proof -
  let ?n = "of_char c :: nat"
  have hi: "unhex (hex_digit (?n div 16)) = Some (?n div 16)"
    using assms by (intro unhex_hex_digit) simp
  have lo: "unhex (hex_digit (?n mod 16)) = Some (?n mod 16)"
    by (intro unhex_hex_digit) simp
  have whole: "char_of (16 * (?n div 16) + ?n mod 16) = c"
    by simp
  show ?thesis
    by (simp add: unhex_zero hi lo whole)
qed

lemma read_chars_escape:
  "read_chars (json_escape_char c @ t) = consumed c (read_chars t)"
proof -
  consider (quote) "c = dquote" | (bslash) "c = backslash"
    | (bs) "c = CHR 0x08" | (ff) "c = CHR 0x0C" | (nl) "c = CHR 0x0A" | (cr) "c = CHR 0x0D"
    | (tab) "c = CHR 0x09"
    | (control) "(of_char c :: nat) < 32" "c \<noteq> CHR 0x08" "c \<noteq> CHR 0x0C" "c \<noteq> CHR 0x0A"
        "c \<noteq> CHR 0x0D" "c \<noteq> CHR 0x09"
    | (plain) "\<not> (of_char c :: nat) < 32" "c \<noteq> dquote" "c \<noteq> backslash"
    by blast
  then show ?thesis
  proof cases
    case quote
    then show ?thesis by (simp add: json_escape_char_def unescape_def)
  next
    case bslash
    then show ?thesis by (simp add: json_escape_char_def unescape_def)
  next
    case bs
    then show ?thesis by (simp add: json_escape_char_def unescape_def)
  next
    case ff
    then show ?thesis by (simp add: json_escape_char_def unescape_def)
  next
    case nl
    then show ?thesis by (simp add: json_escape_char_def unescape_def)
  next
    case cr
    then show ?thesis by (simp add: json_escape_char_def unescape_def)
  next
    case tab
    then show ?thesis by (simp add: json_escape_char_def unescape_def)
  next
    case control
    have "c \<noteq> dquote" "c \<noteq> backslash"
      using control(1) by auto
    with control have "json_escape_char c
        = backslash # ''u00'' @ [hex_digit (of_char c div 16), hex_digit (of_char c mod 16)]"
      by (simp add: json_escape_char_def)
    then show ?thesis
      by (simp only: read_chars_control[OF control(1)])
  next
    case plain
    have "c \<noteq> CHR 0x08" "c \<noteq> CHR 0x0C" "c \<noteq> CHR 0x0A" "c \<noteq> CHR 0x0D" "c \<noteq> CHR 0x09"
      using plain(1) by auto
    with plain have "json_escape_char c = [c]"
      by (simp add: json_escape_char_def)
    then show ?thesis using plain by simp
  qed
qed

lemma read_chars_escaped:
  "read_chars (concat (map json_escape_char s) @ dquote # rest) = Some (s, rest)"
  by (induction s) (simp_all add: read_chars_escape consumed_def)

lemma read_string_quote: "read_string (json_quote s @ rest) = Some (s, rest)"
  using read_chars_escaped[of s rest] by (simp add: read_string_def json_quote_def)

lemma digit_char_digit: "d < 10 \<Longrightarrow> is_digit (digit_char d) \<and> digit_value (digit_char d) = d"
  by (simp add: is_digit_def digit_value_def digit_char_def)

lemma show_nat_digits: "\<forall>c \<in> set (show_nat n). is_digit c"
proof (induction n rule: show_nat.induct)
  case (1 n)
  show ?case
  proof (cases "n < 10")
    case True
    then show ?thesis by (simp add: show_nat.simps[of n] digit_char_digit)
  next
    case False
    have "n mod 10 < 10" by simp
    then have "is_digit (digit_char (n mod 10))" using digit_char_digit by blast
    then show ?thesis using False 1 by (simp add: show_nat.simps[of n])
  qed
qed

lemma show_nat_nonempty: "show_nat n \<noteq> []"
  by (simp add: show_nat.simps[of n])

lemma show_nat_value: "foldl (\<lambda>n c. 10 * n + digit_value c) 0 (show_nat n) = n"
proof (induction n rule: show_nat.induct)
  case (1 n)
  show ?case
  proof (cases "n < 10")
    case True
    then show ?thesis by (simp add: show_nat.simps[of n] digit_char_digit)
  next
    case False
    have "digit_value (digit_char (n mod 10)) = n mod 10"
      using digit_char_digit[of "n mod 10"] by simp
    then show ?thesis using False 1 by (simp add: show_nat.simps[of n])
  qed
qed

lemma read_nat_show:
  assumes "rest = [] \<or> \<not> is_digit (hd rest)"
  shows "read_nat (show_nat n @ rest) = Some (n, rest)"
proof -
  have stop: "takeWhile is_digit rest = []" "dropWhile is_digit rest = rest"
    using assms by (cases rest; simp)+
  have t: "takeWhile is_digit (show_nat n @ rest) = show_nat n"
    using show_nat_digits[of n] by (simp add: takeWhile_append2 stop)
  have d: "dropWhile is_digit (show_nat n @ rest) = rest"
    using show_nat_digits[of n] by (simp add: dropWhile_append2 stop)
  show ?thesis
    by (simp add: read_nat_def t d show_nat_nonempty show_nat_value)
qed

lemma read_int_show:
  assumes "rest = [] \<or> \<not> is_digit (hd rest)"
  shows "read_int (show_int i @ rest) = Some (i, rest)"
proof (cases "i < 0")
  case True
  then show ?thesis
    by (simp add: read_int_def show_int_def read_nat_show[OF assms])
next
  case False
  obtain c cs where sn: "show_nat (nat i) = c # cs"
    using show_nat_nonempty[of "nat i"] by (cases "show_nat (nat i)") auto
  have "is_digit c"
    using show_nat_digits[of "nat i"] by (simp add: sn)
  then have "c \<noteq> CHR ''-''"
    by (auto simp: is_digit_def)
  then show ?thesis
    using False read_nat_show[OF assms, of "nat i"]
    by (simp add: read_int_def show_int_def sn)
qed

lemma not_digit_newline: "\<not> is_digit newline" "\<not> is_digit CHR '',''"
  by (simp_all add: is_digit_def)

lemma read_role_name: "read_role (role_name r) = Some r"
  by (cases r) (simp_all add: read_role_def role_name_def)

lemma read_message_json: "read_message (json_message m @ rest) = Some (m, rest)"
proof -
  have 1: "strip_prefix (''{'' @ [newline] @ json_key 6 ''role'') (json_message m @ rest)
      = Some (json_quote (role_name (role m)) @ '','' @ [newline]
          @ json_key 6 ''content'' @ json_quote (content m) @ '','' @ [newline]
          @ json_key 6 ''timestamp'' @ show_int (timestamp m) @ [newline]
          @ replicate 4 CHR '' '' @ ''}'' @ rest)"
    using strip_prefix_append[of "''{'' @ [newline] @ json_key 6 ''role''"]
    by (simp add: json_message_def)
  have 2: "strip_prefix ('','' @ [newline] @ json_key 6 ''content'')
        ('','' @ [newline] @ json_key 6 ''content'' @ t) = Some t" for t
    using strip_prefix_append[of "'','' @ [newline] @ json_key 6 ''content''" t] by simp
  have 3: "strip_prefix ('','' @ [newline] @ json_key 6 ''timestamp'')
        ('','' @ [newline] @ json_key 6 ''timestamp'' @ t) = Some t" for t
    using strip_prefix_append[of "'','' @ [newline] @ json_key 6 ''timestamp''" t] by simp
  have 4: "read_int (show_int (timestamp m) @ [newline] @ t) = Some (timestamp m, [newline] @ t)" for t
    by (rule read_int_show) (simp add: not_digit_newline)
  have 5: "strip_prefix ([newline] @ replicate 4 CHR '' '' @ ''}'')
        ([newline] @ replicate 4 CHR '' '' @ ''}'' @ t) = Some t" for t
    using strip_prefix_append[of "[newline] @ replicate 4 CHR '' '' @ ''}''" t] by simp
  show ?thesis
    unfolding read_message_def 1
    by (simp only: bind.bind_lunit read_string_quote prod.case read_role_name 2 3 4 5)
       (cases m, simp)
qed

lemma read_items_join:
  assumes "ms \<noteq> []" "length ms \<le> fuel"
  shows "read_items fuel
           (js_join ('','' @ [newline]) (map (\<lambda>m. replicate 4 CHR '' '' @ json_message m) ms)
            @ [newline] @ replicate 2 CHR '' '' @ '']'' @ rest)
         = Some (ms, rest)"
  using assms
proof (induction ms arbitrary: fuel)
  case Nil
  then show ?case by simp
next
  case (Cons m ms)
  then obtain k where fuel: "fuel = Suc k" "length ms \<le> k"
    by (cases fuel) auto
  have ind: "strip_prefix (replicate 4 CHR '' '') (replicate 4 CHR '' '' @ t) = Some t" for t
    by (rule strip_prefix_append)
  have more: "strip_prefix ('','' @ [newline]) ('','' @ [newline] @ t) = Some t" for t
    using strip_prefix_append[of "'','' @ [newline]" t] by simp
  have last1: "strip_prefix ('','' @ [newline]) ([newline] @ t) = None" for t
    by simp
  have last2: "strip_prefix ([newline] @ replicate 2 CHR '' '' @ '']'')
      ([newline] @ replicate 2 CHR '' '' @ '']'' @ t) = Some t" for t
    using strip_prefix_append[of "[newline] @ replicate 2 CHR '' '' @ '']''" t] by simp
  show ?case
  proof (cases ms)
    case Nil
    have "read_items (Suc k)
        ((replicate 4 CHR '' '' @ json_message m @ [newline] @ replicate 2 CHR '' '' @ '']'' @ rest))
        = Some ([m], rest)"
      unfolding read_items.simps ind
      by (simp only: bind.bind_lunit read_message_json prod.case last1 last2 option.case)
    then show ?thesis by (simp add: Nil fuel)
  next
    case (Cons m' ms')
    let ?tail = "js_join ('','' @ [newline]) (map (\<lambda>m. replicate 4 CHR '' '' @ json_message m) ms)
        @ [newline] @ replicate 2 CHR '' '' @ '']'' @ rest"
    have ih: "read_items k ?tail = Some (ms, rest)"
      using Cons.IH[of k] fuel(2) Cons by simp
    have "read_items (Suc k) (replicate 4 CHR '' '' @ json_message m @ '','' @ [newline] @ ?tail)
        = Some (m # ms, rest)"
      unfolding read_items.simps ind
      by (simp only: bind.bind_lunit read_message_json prod.case more option.case ih)
         (simp add: consumed_def)
    then show ?thesis by (simp add: Cons fuel)
  qed
qed

lemma length_js_join:
  "\<forall>x \<in> set xs. x \<noteq> [] \<Longrightarrow> length xs \<le> length (js_join sep xs)"
proof (induction sep xs rule: js_join.induct)
  case (1 sep)
  then show ?case by simp
next
  case (2 sep x)
  then show ?case by (cases x) simp_all
next
  case (3 sep x y ys)
  then have "x \<noteq> []" "length (y # ys) \<le> length (js_join sep (y # ys))"
    by simp_all
  then show ?case by (cases x) simp_all
qed

lemma read_messages_json: "read_messages (json_messages ms @ rest) = Some (ms, rest)"
proof (cases "ms = []")
  case True
  then show ?thesis by (simp add: read_messages_def json_messages_def)
next
  case False
  let ?items = "js_join ('','' @ [newline]) (map (\<lambda>m. replicate 4 CHR '' '' @ json_message m) ms)"
  let ?tail = "?items @ [newline] @ replicate 2 CHR '' '' @ '']'' @ rest"
  have shape: "json_messages ms @ rest = ''['' @ [newline] @ ?tail"
    using False by (simp add: json_messages_def)
  have "length ms \<le> length ?items"
    by (rule order_trans[OF _ length_js_join]) (simp_all add: eval_nat_numeral)
  then have fuel: "length ms \<le> length (''['' @ [newline] @ ?tail)"
    by simp
  have "read_messages (''['' @ [newline] @ ?tail) = read_items (length (''['' @ [newline] @ ?tail)) ?tail"
    by (simp add: read_messages_def)
  then show ?thesis
    unfolding shape using read_items_join[OF False fuel, of rest] by simp
qed

text \<open>
  The reader returns the session whose text it is given: nothing of a session is lost
  in its file, and two sessions with the same text are the same session.
\<close>

lemma read_session_stringify: "read_session (JSON_stringify s) = Some s"
proof -
  have 1: "strip_prefix (''{'' @ [newline] @ json_key 2 ''userId'') (JSON_stringify s)
      = Some (json_quote (userId s) @ '','' @ [newline]
          @ json_key 2 ''messages'' @ json_messages (messages s) @ '','' @ [newline]
          @ json_key 2 ''createdAt'' @ show_int (createdAt s) @ '','' @ [newline]
          @ json_key 2 ''lastActivityAt'' @ show_int (lastActivityAt s) @ [newline] @ ''}'')"
    using strip_prefix_append[of "''{'' @ [newline] @ json_key 2 ''userId''"]
    by (simp add: JSON_stringify_def)
  have 2: "strip_prefix ('','' @ [newline] @ json_key 2 ''messages'')
        ('','' @ [newline] @ json_key 2 ''messages'' @ t) = Some t" for t
    using strip_prefix_append[of "'','' @ [newline] @ json_key 2 ''messages''" t] by simp
  have 3: "strip_prefix ('','' @ [newline] @ json_key 2 ''createdAt'')
        ('','' @ [newline] @ json_key 2 ''createdAt'' @ t) = Some t" for t
    using strip_prefix_append[of "'','' @ [newline] @ json_key 2 ''createdAt''" t] by simp
  have 4: "read_int (show_int i @ '','' @ t) = Some (i, '','' @ t)" for i t
    by (rule read_int_show) (simp add: not_digit_newline)
  have 5: "strip_prefix ('','' @ [newline] @ json_key 2 ''lastActivityAt'')
        ('','' @ [newline] @ json_key 2 ''lastActivityAt'' @ t) = Some t" for t
    using strip_prefix_append[of "'','' @ [newline] @ json_key 2 ''lastActivityAt''" t] by simp
  have 6: "read_int (show_int i @ [newline] @ t) = Some (i, [newline] @ t)" for i t
    by (rule read_int_show) (simp add: not_digit_newline)
  have 7: "strip_prefix ([newline] @ ''}'') ([newline] @ ''}'') = Some []"
    using strip_prefix_append[of "[newline] @ ''}''" "[]"] by simp
  show ?thesis
    unfolding read_session_def 1
    by (simp only: bind.bind_lunit read_string_quote read_messages_json prod.case 2 3 4 5 6 7)
       (cases s, simp)
qed

lemma JSON_stringify_inj:
  assumes "JSON_stringify s = JSON_stringify s'"
  shows "s = s'"
proof -
  have "Some s = read_session (JSON_stringify s)"
    by (simp only: read_session_stringify)
  also have "\<dots> = read_session (JSON_stringify s')"
    by (simp only: assms)
  also have "\<dots> = Some s'"
    by (simp only: read_session_stringify)
  finally show ?thesis by (simp only: option.inject)
qed

lemma read_session_broken: "read_session ''{ broken'' = None"
  by (simp add: read_session_def)

section \<open>Loading at startup\<close>

lemma load_loop_loaded:
  assumes "\<forall>k. io_fault w k = None" "distinct (map fst (files w))" "set entries \<subseteq> set (files w)"
  shows "fst (snd (load_loop parse (map fst entries) m w))
           = m\<lparr>sessions := loaded parse entries (sessions m)\<rparr>
       \<and> files (snd (snd (load_loop parse (map fst entries) m w))) = files w"
  using assms
proof (induction entries arbitrary: m w)
  case Nil
  then show ?case by simp
next
  case (Cons e rest)
  obtain name data where e: "e = (name, data)" by (cases e)
  let ?w = "w\<lparr>io_calls := Suc (io_calls w)\<rparr>"
  have look: "map_of (files w) name = Some data"
    using Cons.prems(2,3) by (simp add: e)
  have rd: "fs_readFile name w = (Inr data, ?w)"
    using Cons.prems(1) look by (simp add: fs_readFile_def fs_call_def)
  have w': "\<forall>k. io_fault ?w k = None" "distinct (map fst (files ?w))" "set rest \<subseteq> set (files ?w)"
    using Cons.prems by simp_all
  have w0: "set rest \<subseteq> set (files w)"
    using Cons.prems(3) by simp
  show ?case
  proof (cases "endsWith name ''.json''")
    case False
    then show ?thesis
      using Cons.IH[OF Cons.prems(1,2) w0, of m] by (simp add: e)
  next
    case True
    show ?thesis
    proof (cases "parse data")
      case None
      then show ?thesis using True by (simp add: e rd)
    next
      case (Some s)
      then show ?thesis
        using True Cons.IH[OF w', of "m\<lparr>sessions := AList.update (userId s) s (sessions m)\<rparr>"]
        by (simp add: e rd)
    qed
  qed
qed

lemma loadSessions_loaded:
  assumes "\<forall>k. io_fault w k = None" "distinct (map fst (files w))"
  shows "fst (snd (loadSessions parse m w)) = m\<lparr>sessions := loaded parse (files w) (sessions m)\<rparr>"
proof -
  let ?w = "w\<lparr>io_calls := Suc (io_calls w)\<rparr>"
  have rd: "fs_readdir w = (Inr (map fst (files w)), ?w)"
    using assms(1) by (simp add: fs_readdir_def fs_call_def)
  have "fst (snd (load_loop parse (map fst (files ?w)) m ?w))
      = m\<lparr>sessions := loaded parse (files ?w) (sessions m)\<rparr>"
    using load_loop_loaded[of ?w "files ?w" parse m] assms by simp
  then show ?thesis
    by (cases "load_loop parse (map fst (files w)) m ?w")
       (auto simp: loadSessions_def rd split: sum.splits)
qed

lemma loadSessions_never_fails: "fst (loadSessions parse m w) = Inr ()"
  by (simp add: loadSessions_def split: prod.splits sum.splits)

lemma loadSessions_absent:
  "io_fault w (io_calls w) = Some msg \<Longrightarrow> fst (snd (loadSessions parse m w)) = m"
  by (simp add: loadSessions_def fs_readdir_def fs_call_def)

lemma loadSessions_empty:
  "files w = [] \<Longrightarrow> fst (snd (loadSessions parse m w)) = m"
  by (simp add: loadSessions_def fs_readdir_def fs_call_def split: option.splits)

lemma loaded_stops:
  "endsWith bad ''.json'' \<Longrightarrow> parse data = None \<Longrightarrow>
   loaded parse (pre @ (bad, data) # post) acc = loaded parse pre acc"
  by (induction pre arbitrary: acc) (auto split: option.splits)

lemma loaded_misses:
  assumes "map_of acc u = None"
    and "\<forall>(n, d) \<in> set entries. \<forall>s'. parse d = Some s' \<longrightarrow> userId s' \<noteq> u"
  shows "map_of (loaded parse entries acc) u = None"
  using assms
proof (induction entries arbitrary: acc)
  case Nil
  then show ?case by simp
next
  case (Cons e rest)
  obtain n d where e: "e = (n, d)" by (cases e)
  have rest: "\<forall>(n, d) \<in> set rest. \<forall>s'. parse d = Some s' \<longrightarrow> userId s' \<noteq> u"
    using Cons.prems(2) by simp
  show ?case
  proof (cases "endsWith n ''.json''")
    case False
    then show ?thesis using Cons.IH[OF Cons.prems(1) rest] by (simp add: e)
  next
    case True
    show ?thesis
    proof (cases "parse d")
      case None
      then show ?thesis using True Cons.prems(1) by (simp add: e)
    next
      case (Some s')
      then have "userId s' \<noteq> u"
        using Cons.prems(2) by (simp add: e)
      then have "map_of (AList.update (userId s') s' acc) u = None"
        using Cons.prems(1) by (simp add: AList.update_conv')
      from Cons.IH[OF this rest] show ?thesis
        using True Some by (simp add: e)
    qed
  qed
qed

lemma loaded_keeps:
  assumes "\<forall>(n, d) \<in> set entries. endsWith n ''.json'' \<longrightarrow>
             (\<exists>s'. parse d = Some s' \<and> (userId s' = u \<longrightarrow> s' = s))"
    and "map_of acc u = Some s"
  shows "map_of (loaded parse entries acc) u = Some s"
  using assms
proof (induction entries arbitrary: acc)
  case Nil
  then show ?case by simp
next
  case (Cons e rest)
  obtain n d where e: "e = (n, d)" by (cases e)
  have rest: "\<forall>(n, d) \<in> set rest. endsWith n ''.json'' \<longrightarrow>
      (\<exists>s'. parse d = Some s' \<and> (userId s' = u \<longrightarrow> s' = s))"
    using Cons.prems(1) by simp
  show ?case
  proof (cases "endsWith n ''.json''")
    case False
    then show ?thesis using Cons.IH[OF rest Cons.prems(2)] by (simp add: e)
  next
    case True
    then obtain s' where s': "parse d = Some s'" "userId s' = u \<longrightarrow> s' = s"
      using Cons.prems(1) by (auto simp: e)
    have "map_of (AList.update (userId s') s' acc) u = Some s"
      using s'(2) Cons.prems(2) by (simp add: AList.update_conv')
    from Cons.IH[OF rest this] show ?thesis
      using True s'(1) by (simp add: e)
  qed
qed

lemma loaded_finds:
  assumes "\<forall>(n, d) \<in> set entries. endsWith n ''.json'' \<longrightarrow>
             (\<exists>s'. parse d = Some s' \<and> (userId s' = u \<longrightarrow> s' = s))"
    and "(n0, d0) \<in> set entries" "endsWith n0 ''.json''" "parse d0 = Some s" "userId s = u"
  shows "map_of (loaded parse entries acc) u = Some s"
  using assms(1,2)
proof (induction entries arbitrary: acc)
  case Nil
  then show ?case by simp
next
  case (Cons e rest)
  obtain n d where e: "e = (n, d)" by (cases e)
  have rest: "\<forall>(n, d) \<in> set rest. endsWith n ''.json'' \<longrightarrow>
      (\<exists>s'. parse d = Some s' \<and> (userId s' = u \<longrightarrow> s' = s))"
    using Cons.prems(1) by simp
  show ?case
  proof (cases "endsWith n ''.json''")
    case False
    then have "(n0, d0) \<in> set rest"
      using Cons.prems(2) assms(3) by (auto simp: e)
    from Cons.IH[OF rest this] show ?thesis using False by (simp add: e)
  next
    case True
    then obtain s' where s': "parse d = Some s'" "userId s' = u \<longrightarrow> s' = s"
      using Cons.prems(1) by (auto simp: e)
    show ?thesis
    proof (cases "userId s' = u")
      case same: True
      then have "map_of (AList.update (userId s') s' acc) u = Some s"
        using s'(2) by (simp add: AList.update_conv')
      from loaded_keeps[OF rest this] show ?thesis
        using True s'(1) by (simp add: e)
    next
      case other: False
      then have "(n0, d0) \<in> set rest"
        using Cons.prems(2) assms(4,5) s'(1) by (auto simp: e)
      from Cons.IH[OF rest this] show ?thesis
        using True s'(1) by (simp add: e)
    qed
  qed
qed

text \<open>
  What \<^verbatim>\<open>loadSessions\<close> does with a record that does not parse, in general. One \<^verbatim>\<open>try\<close>
  encloses the whole loop, so the exception of \<^verbatim>\<open>JSON.parse\<close> leaves the loop: the
  mapping is the one obtained from the records listed before the unparsable one.
  A session among those is in the mapping; a user whose record is listed after it,
  and who was not in the mapping, is not.
\<close>

lemma loadSessions_stops:
  assumes "\<forall>k. io_fault w k = None" and "distinct (map fst (files w))"
    and "files w = pre @ (bad, data) # post" and "endsWith bad ''.json''" and "parse data = None"
  shows "fst (snd (loadSessions parse m w)) = m\<lparr>sessions := loaded parse pre (sessions m)\<rparr>"
  using loaded_stops[where parse = parse and bad = bad and data = data and pre = pre
      and post = post and acc = "sessions m", OF assms(4,5)]
  by (simp add: loadSessions_loaded[OF assms(1,2)] assms(3))

lemma loadSessions_registers_earlier_records:
  assumes "\<forall>k. io_fault w k = None" and "distinct (map fst (files w))"
    and "files w = pre @ (bad, data) # post" and "endsWith bad ''.json''" and "parse data = None"
    and "\<forall>(n, d) \<in> set pre. endsWith n ''.json'' \<longrightarrow>
           (\<exists>s'. parse d = Some s' \<and> (userId s' = u \<longrightarrow> s' = s))"
    and "(n0, d0) \<in> set pre" and "endsWith n0 ''.json''" and "parse d0 = Some s" and "userId s = u"
  shows "map_of (sessions (fst (snd (loadSessions parse m w)))) u = Some s"
proof -
  have "fst (snd (loadSessions parse m w)) = m\<lparr>sessions := loaded parse pre (sessions m)\<rparr>"
    using assms(1,2,3,4,5) by (rule loadSessions_stops)
  then show ?thesis
    using loaded_finds[OF assms(6,7,8,9,10), of "sessions m"] by simp
qed

lemma loadSessions_loses_later_records:
  assumes "\<forall>k. io_fault w k = None" and "distinct (map fst (files w))"
    and "files w = pre @ (bad, data) # post" and "endsWith bad ''.json''" and "parse data = None"
    and "map_of (sessions m) u = None"
    and "\<forall>(n, d) \<in> set pre. \<forall>s'. parse d = Some s' \<longrightarrow> userId s' \<noteq> u"
  shows "map_of (sessions (fst (snd (loadSessions parse m w)))) u = None"
proof -
  have "fst (snd (loadSessions parse m w)) = m\<lparr>sessions := loaded parse pre (sessions m)\<rparr>"
    using assms(1,2,3,4,5) by (rule loadSessions_stops)
  then show ?thesis
    using loaded_misses[OF assms(6,7)] by simp
qed

text \<open>
  Claim C4 says that a stored record that fails to parse is skipped, that the loading
  continues and that every parseable record still ends up in the mapping. The code
  does not do so. Let the session directory list \<^verbatim>\<open>8.json\<close> (the record of user 8),
  \<^verbatim>\<open>3.json\<close> (a text that does not parse) and \<^verbatim>\<open>7.json\<close> (the record of user 7), in this
  order, and let every storage call succeed. \<^verbatim>\<open>loadSessions\<close> at startup returns without
  a failure and registers user 8, but the loading ends at \<^verbatim>\<open>3.json\<close>: the record of user
  7 parses, and the mapping holds the session of user 8 and nothing else.
\<close>

theorem corrupt_record_ends_loading:
  "map fst (files corrupt_record_world) = [''8.json'', ''3.json'', ''7.json'']
   \<and> map_of (files corrupt_record_world) ''3.json'' = Some ''{ broken''
   \<and> map_of (files corrupt_record_world) ''7.json'' = Some (JSON_stringify alice)
   \<and> read_session (JSON_stringify alice) = Some alice
   \<and> fst (loadSessions read_session (new_SessionManager None) corrupt_record_world) = Inr ()
   \<and> sessions (fst (snd (loadSessions read_session (new_SessionManager None)
        corrupt_record_world))) = [(''8'', bob)]"
  by (simp add: corrupt_record_world_def read_session_stringify read_session_broken loadSessions_def
      fs_readdir_def fs_readFile_def fs_call_def no_fault_def endsWith_def new_SessionManager_def
      bob_def)

section \<open>Saving and loading\<close>

lemma endsWith_sessionFile: "endsWith (sessionFile uid) ''.json''"
  by (simp add: endsWith_def sessionFile_def)

text \<open>
  Where every other \<^verbatim>\<open>.json\<close> record of the directory is a readable record of another
  user, a saved session comes back. The file is read with \<^const>\<open>read_session\<close>, so the
  statement depends on what \<^const>\<open>JSON_stringify\<close> writes: the text has to determine the
  session. Let a session be stored in memory under its own user id and let the storage
  work. Then \<^verbatim>\<open>saveSession\<close> succeeds, and \<^verbatim>\<open>loadSessions\<close> into a new manager (a restart)
  has under that user id a session equal to the saved one in every field: user id,
  messages (role, content and timestamp of each, in order), \<open>createdAt\<close> and
  \<open>lastActivityAt\<close>.
\<close>

lemma save_then_load_restores:
  assumes "map_of (sessions m) uid = Some s" and "userId s = uid"
    and "\<forall>k. io_fault w k = None"
    and "distinct (map fst (files w))"
    and "\<forall>(n, d) \<in> set (files w). n \<noteq> sessionFile uid \<and> endsWith n ''.json'' \<longrightarrow>
           (\<exists>s'. read_session d = Some s' \<and> userId s' \<noteq> uid)"
  shows "fst (saveSession uid m w) = Inr ()
       \<and> map_of (sessions (fst (snd (loadSessions read_session (new_SessionManager None)
            (snd (saveSession uid m w)))))) uid = Some s"
proof -
  let ?n0 = "sessionFile uid"
  let ?F = "AList.update ?n0 (JSON_stringify s) (files w)"
  let ?w1 = "written uid s w"
  note rb = read_session_stringify[of s]
  have saved: "saveSession uid m w = (Inr (), ?w1)"
    using assms(3) by (simp add: saveSession_present[OF assms(1)] io_result_def)
  have files1: "files ?w1 = ?F"
    using assms(3) by (simp add: written_def)
  have ok1: "\<forall>k. io_fault ?w1 k = None"
    using assms(3) by (simp add: written_def)
  have dist: "distinct (map fst ?F)"
    using assms(4) by (rule AList.distinct_update)
  have dist1: "distinct (map fst (files ?w1))"
    using dist by (simp add: files1)
  have mine: "(?n0, JSON_stringify s) \<in> set ?F"
    using map_of_update_same[of ?n0 "JSON_stringify s" "files w"] by (rule map_of_SomeD)
  have all: "\<forall>(n, d) \<in> set ?F. endsWith n ''.json'' \<longrightarrow>
      (\<exists>s'. read_session d = Some s' \<and> (userId s' = uid \<longrightarrow> s' = s))"
  proof (clarify)
    fix n d assume nd: "(n, d) \<in> set ?F" and js: "endsWith n ''.json''"
    from nd dist have "map_of ?F n = Some d"
      by simp
    then have look: "((map_of (files w))(?n0 \<mapsto> JSON_stringify s)) n = Some d"
      by (simp only: AList.update_conv')
    show "\<exists>s'. read_session d = Some s' \<and> (userId s' = uid \<longrightarrow> s' = s)"
    proof (cases "n = ?n0")
      case True
      with look have "d = JSON_stringify s" by simp
      then show ?thesis using rb by simp
    next
      case False
      with look have "map_of (files w) n = Some d" by simp
      then have "(n, d) \<in> set (files w)" by (rule map_of_SomeD)
      with assms(5) False js show ?thesis by blast
    qed
  qed
  have "map_of (loaded read_session ?F []) uid = Some s"
    using loaded_finds[OF all mine endsWith_sessionFile rb assms(2)] .
  then have "map_of (sessions (fst (snd (loadSessions read_session (new_SessionManager None) ?w1)))) uid = Some s"
    by (simp add: loadSessions_loaded[OF ok1 dist1] files1 new_SessionManager_def)
  then show ?thesis by (simp add: saved)
qed

lemma save_then_load_restores_example:
  "fst (saveSession ''7'' alice_manager shared_world) = Inr ()
   \<and> map_of (sessions (fst (snd (loadSessions read_session (new_SessionManager None)
        (snd (saveSession ''7'' alice_manager shared_world)))))) ''7''
       = Some \<lparr>userId = ''7'', messages = [hello, reply], createdAt = 1, lastActivityAt = 2\<rparr>"
proof -
  have h: "map_of (sessions alice_manager) ''7'' = Some alice"
    by (simp add: alice_manager_def)
  have u: "userId alice = ''7''"
    by (simp add: alice_def)
  have f: "\<forall>k. io_fault shared_world k = None"
    by (simp add: shared_world_def no_fault_def)
  have d: "distinct (map fst (files shared_world))"
    by (simp add: shared_world_def)
  have l: "files shared_world = [(''8.json'', JSON_stringify bob), (''notes.txt'', ''not a session'')]"
    by (simp add: shared_world_def)
  note pb = read_session_stringify[of bob]
  have ub: "userId bob = ''8''"
    by (simp add: bob_def)
  have e: "endsWith ''notes.txt'' ''.json'' = False"
    by (simp add: endsWith_def)
  have o: "\<forall>(n, d) \<in> set (files shared_world). n \<noteq> sessionFile ''7'' \<and> endsWith n ''.json'' \<longrightarrow>
      (\<exists>s'. read_session d = Some s' \<and> userId s' \<noteq> ''7'')"
    using e pb ub by (simp add: l)
  from save_then_load_restores[OF h u f d o]
  show ?thesis by (simp add: alice_def)
qed

text \<open>
  Claim C7 says that for every session \<^verbatim>\<open>saveSession\<close> followed by \<^verbatim>\<open>loadSessions\<close> (a
  restart) reproduces the session. On the code this fails where the directory holds
  a record that does not parse and that is listed before the saved one. Let the
  session directory hold \<^verbatim>\<open>3.json\<close>, a text that does not parse, and let the manager hold
  the session of user 7 with its two messages. \<^verbatim>\<open>saveSession\<close> succeeds and writes
  \<^verbatim>\<open>7.json\<close>, whose text reads back as the session; the directory then lists \<^verbatim>\<open>3.json\<close>
  and \<^verbatim>\<open>7.json\<close>. \<^verbatim>\<open>loadSessions\<close> into a new manager ends at \<^verbatim>\<open>3.json\<close> and the mapping
  is empty: the saved session is not reproduced.
\<close>

theorem saved_session_lost_behind_corrupt_record:
  "map_of (sessions alice_manager) ''7'' = Some alice
   \<and> fst (saveSession ''7'' alice_manager corrupt_neighbour_world) = Inr ()
   \<and> files (snd (saveSession ''7'' alice_manager corrupt_neighbour_world))
       = [(''3.json'', ''{ broken''), (''7.json'', JSON_stringify alice)]
   \<and> read_session (JSON_stringify alice) = Some alice
   \<and> fst (loadSessions read_session (new_SessionManager None)
        (snd (saveSession ''7'' alice_manager corrupt_neighbour_world))) = Inr ()
   \<and> sessions (fst (snd (loadSessions read_session (new_SessionManager None)
        (snd (saveSession ''7'' alice_manager corrupt_neighbour_world))))) = []"
proof -
  have h: "map_of (sessions alice_manager) ''7'' = Some alice"
    by (simp add: alice_manager_def)
  have saved: "saveSession ''7'' alice_manager corrupt_neighbour_world
      = (Inr (), written ''7'' alice corrupt_neighbour_world)"
    by (simp add: saveSession_present[OF h] io_result_def corrupt_neighbour_world_def no_fault_def)
  have fl: "files (written ''7'' alice corrupt_neighbour_world)
      = [(''3.json'', ''{ broken''), (''7.json'', JSON_stringify alice)]"
    by (simp add: written_def corrupt_neighbour_world_def no_fault_def sessionFile_def)
  have ok: "\<forall>k. io_fault (written ''7'' alice corrupt_neighbour_world) k = None"
    by (simp add: written_def corrupt_neighbour_world_def no_fault_def)
  have dist: "distinct (map fst (files (written ''7'' alice corrupt_neighbour_world)))"
    by (simp add: fl)
  have lost: "fst (snd (loadSessions read_session (new_SessionManager None)
        (written ''7'' alice corrupt_neighbour_world)))
      = (new_SessionManager None)\<lparr>sessions := loaded read_session
           (files (written ''7'' alice corrupt_neighbour_world)) (sessions (new_SessionManager None))\<rparr>"
    by (rule loadSessions_loaded[OF ok dist])
  have empty: "loaded read_session [(''3.json'', ''{ broken''), (''7.json'', JSON_stringify alice)]
      (sessions (new_SessionManager None)) = []"
    by (simp add: endsWith_def read_session_broken new_SessionManager_def)
  have gone: "sessions (fst (snd (loadSessions read_session (new_SessionManager None)
        (written ''7'' alice corrupt_neighbour_world)))) = []"
    by (simp only: lost fl empty) simp
  show ?thesis
    by (simp add: h saved fl gone read_session_stringify loadSessions_never_fails)
qed

end
